theory Spec2Isabelle
  imports Main "HOL-Library.Multiset"
begin

section \<open>JavaScript strings\<close>

text \<open>
  A JavaScript string is a sequence of UTF-16 code units; a code unit is modelled by its
  numeric value. \<open>js\<close> turns an ASCII literal into such a sequence.
\<close>

type_synonym jsstring = "nat list"

abbreviation js :: "string \<Rightarrow> jsstring" where
  "js s \<equiv> map of_char s"

text \<open>
  The code units that \<^verbatim>\<open>String.prototype.trim\<close> strips: ECMAScript's WhiteSpace and
  LineTerminator (TAB, LF, VT, FF, CR, SP, NBSP, U+1680, U+2000..U+200A, U+2028, U+2029,
  U+202F, U+205F, U+3000, U+FEFF).
\<close>

definition isWhiteSpace :: "nat \<Rightarrow> bool" where
  "isWhiteSpace c =
     (c = 9 \<or> c = 10 \<or> c = 11 \<or> c = 12 \<or> c = 13 \<or> c = 32 \<or> c = 160 \<or> c = 5760
      \<or> (8192 \<le> c \<and> c \<le> 8202) \<or> c = 8232 \<or> c = 8233 \<or> c = 8239 \<or> c = 8287
      \<or> c = 12288 \<or> c = 65279)"

definition trim :: "jsstring \<Rightarrow> jsstring" where
  "trim s = rev (dropWhile isWhiteSpace (rev (dropWhile isWhiteSpace s)))"

text \<open>\<^verbatim>\<open>raw.replace(/\t/g, '    ')\<close>: every TAB becomes four spaces.\<close>

definition replaceTabs :: "jsstring \<Rightarrow> jsstring" where
  "replaceTabs s = concat (map (\<lambda>c. if c = 9 then [32, 32, 32, 32] else [c]) s)"

definition startsWith :: "jsstring \<Rightarrow> jsstring \<Rightarrow> bool" where
  "startsWith s p = (take (length p) s = p)"

text \<open>
  \<^verbatim>\<open>s.indexOf(pat, pos)\<close>: the least index \<open>k \<ge> pos\<close> at which \<open>pat\<close> occurs in \<open>s\<close>,
  or \<open>-1\<close>. \<open>searchFrom cs pat k\<close> scans the suffix \<open>cs\<close> of the string that starts at
  index \<open>k\<close>.
\<close>

fun searchFrom :: "jsstring \<Rightarrow> jsstring \<Rightarrow> nat \<Rightarrow> int" where
  "searchFrom [] pat k = (if pat = [] then int k else - 1)"
| "searchFrom (c # cs) pat k =
     (if startsWith (c # cs) pat then int k else searchFrom cs pat (Suc k))"

definition indexOfFrom :: "jsstring \<Rightarrow> jsstring \<Rightarrow> int \<Rightarrow> int" where
  "indexOfFrom s pat pos =
     (let k = min (nat (max 0 pos)) (length s) in searchFrom (drop k s) pat k)"

definition indexOf :: "jsstring \<Rightarrow> jsstring \<Rightarrow> int" where
  "indexOf s pat = indexOfFrom s pat 0"

text \<open>\<^verbatim>\<open>s.slice(start)\<close>: a negative start counts from the end of the string.\<close>

definition slice :: "jsstring \<Rightarrow> int \<Rightarrow> jsstring" where
  "slice s start =
     (if start < 0 then drop (nat (max 0 (int (length s) + start))) s
      else drop (nat start) s)"

section \<open>The comment classifier\<close>

definition isCStyle :: "jsstring \<Rightarrow> bool" where
  "isCStyle ext =
     (ext \<in> set [js ''ts'', js ''tsx'', js ''js'', js ''jsx'', js ''css'', js ''scss'',
                 js ''sass'', js ''less''])"

definition isHtmlLike :: "jsstring \<Rightarrow> bool" where
  "isHtmlLike ext = (ext = js ''html'' \<or> ext = js ''vue'')"

datatype blockType = BlockC | BlockHtml | BlockNull

text \<open>The variables that the loop of \<^verbatim>\<open>analyzeTextLines\<close> updates.\<close>

record scan =
  nonEmpty :: nat
  commentOnly :: nat
  withinBlock :: bool
  blockType :: blockType

definition countComment :: "scan \<Rightarrow> scan" where
  "countComment st = st\<lparr>commentOnly := commentOnly st + 1\<rparr>"

definition closeBlock :: "scan \<Rightarrow> scan" where
  "closeBlock st = st\<lparr>withinBlock := False, blockType := BlockNull\<rparr>"

definition openBlock :: "blockType \<Rightarrow> scan \<Rightarrow> scan" where
  "openBlock t st = st\<lparr>withinBlock := True, blockType := t\<rparr>"

text \<open>
  The branch of the loop body taken inside a block comment whose terminator is \<open>endTok\<close>
  (source lines 195-213 for \<^verbatim>\<open>*/\<close>, 214-231 for \<^verbatim>\<open>-->\<close>).
\<close>

definition insideBlock :: "jsstring \<Rightarrow> scan \<Rightarrow> jsstring \<Rightarrow> scan" where
  "insideBlock endTok st trimmed =
     (let endIdx = indexOf trimmed endTok in
      if endIdx = - 1 then countComment st
      else
        let after = trim (slice trimmed (endIdx + int (length endTok))) in
        if after = [] then closeBlock (countComment st)
        else closeBlock st)"

text \<open>The part of the loop body below "Not inside block comment currently" (lines 236-280).\<close>

definition outsideBlock :: "jsstring \<Rightarrow> scan \<Rightarrow> jsstring \<Rightarrow> scan" where
  "outsideBlock ext st trimmed =
     (if isCStyle ext then
        if startsWith trimmed (js ''//'') then countComment st
        else
          let sIdx = indexOf trimmed (js ''/*'') in
          if sIdx \<noteq> - 1 then
            let eIdx = indexOfFrom trimmed (js ''*/'') (sIdx + 2) in
            if sIdx = 0 then
              if eIdx = - 1 then openBlock BlockC (countComment st)
              else
                let after = trim (slice trimmed (eIdx + 2)) in
                if after = [] then countComment st else st
            else st
          else st
      else if isHtmlLike ext then
        if startsWith trimmed (js ''<!--'') then
          let eIdx = indexOf trimmed (js ''-->'') in
          if eIdx = - 1 then openBlock BlockHtml (countComment st)
          else
            let after = trim (slice trimmed (eIdx + 3)) in
            if after = [] then countComment st else st
        else st
      else st)"

text \<open>One iteration of the loop over the lines (lines 184-283).\<close>

definition trimmedLine :: "jsstring \<Rightarrow> jsstring" where
  "trimmedLine raw = trim (replaceTabs raw)"

definition analyzeLine :: "jsstring \<Rightarrow> bool \<Rightarrow> scan \<Rightarrow> jsstring \<Rightarrow> scan" where
  "analyzeLine ext detectComments st raw =
     (let trimmed = trimmedLine raw in
      if trimmed = [] then st
      else
        let st1 = st\<lparr>nonEmpty := nonEmpty st + 1\<rparr> in
        if \<not> detectComments then st1
        else if withinBlock st1 \<and> blockType st1 = BlockC then
          insideBlock (js ''*/'') st1 trimmed
        else if withinBlock st1 \<and> blockType st1 = BlockHtml then
          insideBlock (js ''-->'') st1 trimmed
        else outsideBlock ext st1 trimmed)"

definition initialScan :: scan where
  "initialScan = \<lparr>nonEmpty = 0, commentOnly = 0, withinBlock = False, blockType = BlockNull\<rparr>"

definition scanLines :: "jsstring \<Rightarrow> bool \<Rightarrow> scan \<Rightarrow> jsstring list \<Rightarrow> scan" where
  "scanLines ext detectComments st lines = foldl (analyzeLine ext detectComments) st lines"

text \<open>The result \<^verbatim>\<open>{ total, nonEmpty, commentOnly }\<close> as a triple.\<close>

definition analyzeTextLines :: "jsstring list \<Rightarrow> jsstring \<Rightarrow> bool \<Rightarrow> nat \<times> nat \<times> nat" where
  "analyzeTextLines lines ext detectComments =
     (let st = scanLines ext detectComments initialScan lines in
      (length lines, nonEmpty st, commentOnly st))"

section \<open>Analysing one file\<close>

text \<open>
  \<^verbatim>\<open>content.split(/\r\n|\n|\r/)\<close>: CR LF, LF and CR each end a line; the text after the last
  delimiter is a line too, so the empty content is one empty line.
\<close>

fun splitLines :: "jsstring \<Rightarrow> jsstring list" where
  "splitLines [] = [[]]"
| "splitLines [c] = (if c = 10 \<or> c = 13 then [[], []] else [[c]])"
| "splitLines (c # d # cs) =
     (if c = 13 \<and> d = 10 then [] # splitLines cs
      else if c = 10 \<or> c = 13 then [] # splitLines (d # cs)
      else (case splitLines (d # cs) of [] \<Rightarrow> [[c]] | l # ls \<Rightarrow> (c # l) # ls))"

text \<open>
  The functions of the Node.js library that the program calls on paths and names are
  parameters of the model: \<^verbatim>\<open>path.extname\<close>, \<^verbatim>\<open>String.prototype.toLowerCase\<close> and
  \<^verbatim>\<open>path.join\<close>.
\<close>

record platform =
  extname :: "jsstring \<Rightarrow> jsstring"
  toLowerCase :: "jsstring \<Rightarrow> jsstring"
  pathJoin :: "jsstring \<Rightarrow> jsstring \<Rightarrow> jsstring"

text \<open>\<^verbatim>\<open>s.replace(/^\./, '')\<close>: a leading dot is removed.\<close>

definition stripDot :: "jsstring \<Rightarrow> jsstring" where
  "stripDot s = (case s of [] \<Rightarrow> [] | c # cs \<Rightarrow> if c = 46 then cs else c # cs)"

text \<open>\<^verbatim>\<open>path.extname(name).toLowerCase().replace(/^\./, '')\<close> (lines 168 and 295).\<close>

definition fileExt :: "platform \<Rightarrow> jsstring \<Rightarrow> jsstring" where
  "fileExt P name = stripDot (toLowerCase P (extname P name))"

datatype format = Text | Json

text \<open>The type \<^verbatim>\<open>Options\<close>; the field \<^verbatim>\<open>top\<close> is \<open>topN\<close> here.\<close>

record options =
  extensions :: "jsstring list"
  excludeDirs :: "jsstring list"
  countEmpty :: bool
  detectComments :: bool
  format :: format
  topN :: nat

text \<open>The type \<^verbatim>\<open>FileStat\<close>; the field \<^verbatim>\<open>file\<close> is \<open>file'\<close> here.\<close>

record fileStat =
  file' :: jsstring
  ext :: jsstring
  totalLines :: nat
  nonEmptyLines :: nat
  commentOnlyLines :: nat

text \<open>
  What the program sees of the file system. \<open>stat p\<close> is \<open>None\<close> when \<^verbatim>\<open>fs.stat\<close> throws,
  and otherwise holds \<^verbatim>\<open>isDirectory()\<close>. \<open>readdir p\<close> is what \<^verbatim>\<open>fs.readdir\<close> with
  \<^verbatim>\<open>withFileTypes\<close> returns at \<open>p\<close>, \<open>None\<close> when it throws; an entry that is a directory
  carries the result of \<^verbatim>\<open>fs.readdir\<close> at that directory. An entry that is neither a
  directory nor a regular file (a symbolic link, a socket) is a \<open>DirentOther\<close>.
  \<open>readFile p\<close> is \<open>None\<close> when \<^verbatim>\<open>fs.readFile\<close> throws.
\<close>

datatype dirent =
  DirentFile jsstring
| DirentDir jsstring "dirent list option"
| DirentOther jsstring

record filesystem =
  stat :: "jsstring \<Rightarrow> bool option"
  readdir :: "jsstring \<Rightarrow> dirent list option"
  readFile :: "jsstring \<Rightarrow> jsstring option"

definition analyzeFile :: "platform \<Rightarrow> filesystem \<Rightarrow> jsstring \<Rightarrow> options \<Rightarrow> fileStat option" where
  "analyzeFile P fs filePath opts =
     (case readFile fs filePath of
        None \<Rightarrow> None
      | Some content \<Rightarrow>
          let e = (if fileExt P filePath = [] then js ''unknown'' else fileExt P filePath);
              lines = splitLines content
          in (case analyzeTextLines lines e (detectComments opts) of
                (totalN, nonEmptyN, commentOnlyN) \<Rightarrow>
                  Some \<lparr>file' = filePath, ext = e, totalLines = totalN,
                        nonEmptyLines = nonEmptyN, commentOnlyLines = commentOnlyN\<rparr>))"

section \<open>The directory walker\<close>

definition shouldExcludeDir :: "jsstring \<Rightarrow> jsstring list \<Rightarrow> bool" where
  "shouldExcludeDir dirname excludeList = (dirname \<in> set excludeList)"

text \<open>
  \<^verbatim>\<open>walkDir\<close> appends to \<^verbatim>\<open>fileList\<close>; the model takes the list and returns it extended.
  \<open>walkEntries\<close> is the loop over the entries of one directory.
\<close>

fun walkDir :: "platform \<Rightarrow> jsstring \<Rightarrow> dirent list option \<Rightarrow> options \<Rightarrow> jsstring list \<Rightarrow> jsstring list"
  and walkEntries :: "platform \<Rightarrow> jsstring \<Rightarrow> dirent list \<Rightarrow> options \<Rightarrow> jsstring list \<Rightarrow> jsstring list"
where
  "walkDir P dir None opts fileList = fileList"
| "walkDir P dir (Some entries) opts fileList = walkEntries P dir entries opts fileList"
| "walkEntries P dir [] opts fileList = fileList"
| "walkEntries P dir (DirentDir name sub # rest) opts fileList =
     (if shouldExcludeDir name (excludeDirs opts) then walkEntries P dir rest opts fileList
      else walkEntries P dir rest opts (walkDir P (pathJoin P dir name) sub opts fileList))"
| "walkEntries P dir (DirentFile name # rest) opts fileList =
     (let e = fileExt P name in
      if e = [] then walkEntries P dir rest opts fileList
      else if extensions opts \<noteq> [] \<and> e \<notin> set (extensions opts)
        then walkEntries P dir rest opts fileList
      else walkEntries P dir rest opts (fileList @ [pathJoin P dir name]))"
| "walkEntries P dir (DirentOther name # rest) opts fileList =
     walkEntries P dir rest opts fileList"

section \<open>The aggregator\<close>

text \<open>
  An entry of the map \<^verbatim>\<open>perExt\<close>; its fields \<^verbatim>\<open>totalLines\<close> and \<^verbatim>\<open>nonEmpty\<close> are
  \<open>totalLinesE\<close> and \<open>nonEmptyE\<close> here. The map itself is the list of its entries in
  insertion order, as a JavaScript \<^verbatim>\<open>Map\<close> keeps them.
\<close>

record extTotals =
  files :: nat
  totalLinesE :: nat
  nonEmptyE :: nat
  comments :: nat

type_synonym extMap = "(jsstring \<times> extTotals) list"

definition mapGet :: "extMap \<Rightarrow> jsstring \<Rightarrow> extTotals option" where
  "mapGet m k = map_of m k"

fun mapSet :: "extMap \<Rightarrow> jsstring \<Rightarrow> extTotals \<Rightarrow> extMap" where
  "mapSet [] k v = [(k, v)]"
| "mapSet ((k', v') # m) k v = (if k' = k then (k, v) # m else (k', v') # mapSet m k v)"

text \<open>The loop over \<^verbatim>\<open>fileList\<close> (lines 328-338), on the pair of \<^verbatim>\<open>fileStats\<close> and \<^verbatim>\<open>perExt\<close>.\<close>

fun processFiles ::
  "platform \<Rightarrow> filesystem \<Rightarrow> options \<Rightarrow> jsstring list \<Rightarrow> fileStat list \<times> extMap \<Rightarrow> fileStat list \<times> extMap"
where
  "processFiles P fs opts [] acc = acc"
| "processFiles P fs opts (f # rest) (fileStats, perExt) =
     (case analyzeFile P fs f opts of
        None \<Rightarrow> processFiles P fs opts rest (fileStats, perExt)
      | Some s \<Rightarrow>
          let cur = (case mapGet perExt (ext s) of
                       Some c \<Rightarrow> c
                     | None \<Rightarrow> \<lparr>files = 0, totalLinesE = 0, nonEmptyE = 0, comments = 0\<rparr>);
              cur' = \<lparr>files = files cur + 1,
                      totalLinesE = totalLinesE cur + totalLines s,
                      nonEmptyE = nonEmptyE cur + nonEmptyLines s,
                      comments = comments cur + commentOnlyLines s\<rparr>
          in processFiles P fs opts rest (fileStats @ [s], mapSet perExt (ext s) cur'))"

text \<open>
  \<^verbatim>\<open>Array.prototype.sort\<close> with a comparator is a stable sort (ECMAScript 2019): insertion
  sort, which puts an element before the first one that it does not follow.
\<close>

fun insertBy :: "('a \<Rightarrow> 'a \<Rightarrow> int) \<Rightarrow> 'a \<Rightarrow> 'a list \<Rightarrow> 'a list" where
  "insertBy cmp x [] = [x]"
| "insertBy cmp x (y # ys) = (if cmp x y \<le> 0 then x # y # ys else y # insertBy cmp x ys)"

definition sortBy :: "('a \<Rightarrow> 'a \<Rightarrow> int) \<Rightarrow> 'a list \<Rightarrow> 'a list" where
  "sortBy cmp xs = foldr (insertBy cmp) xs []"

text \<open>\<^verbatim>\<open>[...fileStats].sort((a, b) => b.totalLines - a.totalLines).slice(0, options.top)\<close>\<close>

definition largestFiles :: "fileStat list \<Rightarrow> nat \<Rightarrow> fileStat list" where
  "largestFiles fileStats n =
     take n (sortBy (\<lambda>a b. int (totalLines b) - int (totalLines a)) fileStats)"

text \<open>
  What \<^verbatim>\<open>run\<close> computes before it prints: the values of the JSON output, with the map
  \<^verbatim>\<open>perExt\<close> as it is before the printing sorts its entries, and the whole of \<^verbatim>\<open>fileStats\<close>.
  The field \<^verbatim>\<open>totalLines\<close> is \<open>totalLinesR\<close> here.
\<close>

record report =
  target :: jsstring
  totalFiles :: nat
  totalLinesR :: nat
  totalNonEmpty :: nat
  totalComments :: nat
  perExtension :: extMap
  largest :: "fileStat list"
  allStats :: "fileStat list"

definition summarize :: "jsstring \<Rightarrow> options \<Rightarrow> fileStat list \<times> extMap \<Rightarrow> report" where
  "summarize targetPath opts acc =
     (case acc of (fileStats, perExt) \<Rightarrow>
        \<lparr>target = targetPath,
         totalFiles = length fileStats,
         totalLinesR = foldl (\<lambda>a b. a + totalLines b) 0 fileStats,
         totalNonEmpty = foldl (\<lambda>a b. a + nonEmptyLines b) 0 fileStats,
         totalComments = foldl (\<lambda>a b. a + commentOnlyLines b) 0 fileStats,
         perExtension = perExt,
         largest = largestFiles fileStats (topN opts),
         allStats = fileStats\<rparr>)"

text \<open>The two ways in which \<^verbatim>\<open>run\<close> ends with \<^verbatim>\<open>process.exit(2)\<close>.\<close>

datatype pathError = PathNotFound | NotADirectory

definition run :: "platform \<Rightarrow> filesystem \<Rightarrow> jsstring \<Rightarrow> options \<Rightarrow> pathError + report" where
  "run P fs targetPath opts =
     (case stat fs targetPath of
        None \<Rightarrow> Inl PathNotFound
      | Some isDirectory \<Rightarrow>
          if \<not> isDirectory then Inl NotADirectory
          else
            let fileList = walkDir P targetPath (readdir fs targetPath) opts []
            in Inr (summarize targetPath opts (processFiles P fs opts fileList ([], []))))"

section \<open>A platform for the examples\<close>

text \<open>
  The library functions at which the examples below evaluate the model: the extension is
  the text from the first dot on, lower case is left as the identity, and paths are joined
  with a slash.
\<close>

definition examplePlatform :: platform where
  "examplePlatform =
     \<lparr>extname = (\<lambda>p. dropWhile (\<lambda>c. c \<noteq> 46) p), toLowerCase = (\<lambda>s. s),
      pathJoin = (\<lambda>p q. p @ 47 # q)\<rparr>"

section \<open>Notions used to state the properties\<close>

text \<open>
  An occurrence of a token at an index of a line, its absence from an index on, its first
  occurrence from an index on, and "only whitespace from an index on".
\<close>

definition occursAt :: "jsstring \<Rightarrow> jsstring \<Rightarrow> nat \<Rightarrow> bool" where
  "occursAt s pat i = startsWith (drop i s) pat"

definition absentFrom :: "jsstring \<Rightarrow> jsstring \<Rightarrow> nat \<Rightarrow> bool" where
  "absentFrom s pat from = (\<forall>j\<in>{from..<length s}. \<not> occursAt s pat j)"

definition firstAt :: "jsstring \<Rightarrow> jsstring \<Rightarrow> nat \<Rightarrow> nat \<Rightarrow> bool" where
  "firstAt s pat from i = (from \<le> i \<and> occursAt s pat i \<and> (\<forall>j\<in>{from..<i}. \<not> occursAt s pat j))"

definition blankFrom :: "jsstring \<Rightarrow> nat \<Rightarrow> bool" where
  "blankFrom s i = (\<forall>c\<in>set (drop i s). isWhiteSpace c)"

text \<open>The terminator that the classifier searches for inside a block comment of each kind.\<close>

definition terminator :: "blockType \<Rightarrow> jsstring" where
  "terminator t = (case t of BlockC \<Rightarrow> js ''*/'' | BlockHtml \<Rightarrow> js ''-->'' | BlockNull \<Rightarrow> [])"

text \<open>
  What holds of the loop variables at every iteration: a block comment is open only when
  detection is on, and its kind is the one of the file's language family.
\<close>

definition scanInv :: "jsstring \<Rightarrow> bool \<Rightarrow> scan \<Rightarrow> bool" where
  "scanInv x d st =
     (withinBlock st \<longrightarrow>
        d \<and> (blockType st = BlockC \<and> isCStyle x \<or> blockType st = BlockHtml \<and> \<not> isCStyle x))"

text \<open>
  \<open>ys\<close> is the list \<open>stats\<close> sorted by total line count, largest first, with records of
  equal line count in the order in which \<open>stats\<close> has them.
\<close>

definition stableSortedDesc :: "fileStat list \<Rightarrow> fileStat list \<Rightarrow> bool" where
  "stableSortedDesc stats ys =
     (mset ys = mset stats
      \<and> sorted_wrt (\<lambda>a b. totalLines b \<le> totalLines a) ys
      \<and> (\<forall>k\<in>set (map totalLines stats).
            filter (\<lambda>f. totalLines f = k) ys = filter (\<lambda>f. totalLines f = k) stats))"

text \<open>
  The sums of the fields over the records of \<open>stats\<close> with extension \<open>e\<close>; none when
  there is no such record.
\<close>

definition extSummaryOf :: "fileStat list \<Rightarrow> jsstring \<Rightarrow> extTotals option" where
  "extSummaryOf stats e =
     (let ss = filter (\<lambda>s. ext s = e) stats in
      if ss = [] then None
      else Some \<lparr>files = length ss,
                 totalLinesE = sum_list (map totalLines ss),
                 nonEmptyE = sum_list (map nonEmptyLines ss),
                 comments = sum_list (map commentOnlyLines ss)\<rparr>)"

text \<open>
  The regular files that the listings show below a directory, in the order of the
  listings, each with the names of the directories on its path below that directory. A
  directory whose listing fails shows no entries.
\<close>

fun filesUnder :: "dirent list option \<Rightarrow> (jsstring list \<times> jsstring) list"
  and filesIn :: "dirent list \<Rightarrow> (jsstring list \<times> jsstring) list"
where
  "filesUnder None = []"
| "filesUnder (Some entries) = filesIn entries"
| "filesIn [] = []"
| "filesIn (DirentFile name # rest) = ([], name) # filesIn rest"
| "filesIn (DirentDir name sub # rest) =
     map (\<lambda>(dirs, n). (name # dirs, n)) (filesUnder sub) @ filesIn rest"
| "filesIn (DirentOther name # rest) = filesIn rest"

text \<open>
  The conditions of the walker on a file: no directory on its path is excluded, its
  extension is not empty, and the extension is allowed when the allow-list is not empty.
\<close>

definition walkerKeeps :: "platform \<Rightarrow> options \<Rightarrow> jsstring list \<times> jsstring \<Rightarrow> bool" where
  "walkerKeeps P opts f =
     (case f of (dirs, name) \<Rightarrow>
        (\<forall>d\<in>set dirs. d \<notin> set (excludeDirs opts))
        \<and> fileExt P name \<noteq> []
        \<and> (extensions opts \<noteq> [] \<longrightarrow> fileExt P name \<in> set (extensions opts)))"

text \<open>The path of a file below \<open>root\<close>, joined name by name.\<close>

definition fullPath :: "platform \<Rightarrow> jsstring \<Rightarrow> jsstring list \<times> jsstring \<Rightarrow> jsstring" where
  "fullPath P root f = (case f of (dirs, name) \<Rightarrow> foldl (pathJoin P) root (dirs @ [name]))"

text \<open>
  The loop of \<^verbatim>\<open>run\<close> keeps this relation between \<^verbatim>\<open>fileStats\<close> and \<^verbatim>\<open>perExt\<close>; \<open>zeroTotals\<close>
  and \<open>addFile\<close> name the entry for a new extension and the update of an entry.
\<close>

definition zeroTotals :: extTotals where
  "zeroTotals = \<lparr>files = 0, totalLinesE = 0, nonEmptyE = 0, comments = 0\<rparr>"

definition addFile :: "extTotals \<Rightarrow> fileStat \<Rightarrow> extTotals" where
  "addFile cur s = \<lparr>files = files cur + 1, totalLinesE = totalLinesE cur + totalLines s,
      nonEmptyE = nonEmptyE cur + nonEmptyLines s,
      comments = comments cur + commentOnlyLines s\<rparr>"

definition aggInv :: "fileStat list \<times> extMap \<Rightarrow> bool" where
  "aggInv acc =
     (case acc of (stats, perExt) \<Rightarrow>
        (\<forall>e. map_of perExt e = extSummaryOf stats e)
        \<and> distinct (map fst perExt)
        \<and> sum_list (map (files \<circ> snd) perExt) = length stats
        \<and> sum_list (map (totalLinesE \<circ> snd) perExt) = sum_list (map totalLines stats)
        \<and> sum_list (map (nonEmptyE \<circ> snd) perExt) = sum_list (map nonEmptyLines stats)
        \<and> sum_list (map (comments \<circ> snd) perExt) = sum_list (map commentOnlyLines stats))"

section \<open>Examples\<close>

text \<open>Three file records, two of them with the same line count.\<close>

definition exStatA :: fileStat where
  "exStatA = \<lparr>file' = js ''a.ts'', ext = js ''ts'', totalLines = 5, nonEmptyLines = 4, commentOnlyLines = 1\<rparr>"

definition exStatB :: fileStat where
  "exStatB = \<lparr>file' = js ''b.ts'', ext = js ''ts'', totalLines = 9, nonEmptyLines = 9, commentOnlyLines = 0\<rparr>"

definition exStatC :: fileStat where
  "exStatC = \<lparr>file' = js ''c.css'', ext = js ''css'', totalLines = 5, nonEmptyLines = 2, commentOnlyLines = 2\<rparr>"

text \<open>
  A directory \<^verbatim>\<open>r\<close> with a file that cannot be read, an excluded directory, and a
  directory \<^verbatim>\<open>src\<close> with a file without extension, a symbolic link and a file whose
  extension is not allowed; the records and the report of the run on it.
\<close>

definition exTree :: "dirent list option" where
  "exTree = Some [DirentFile (js ''a.ts''),
                  DirentDir (js ''node_modules'') (Some [DirentFile (js ''m.ts'')]),
                  DirentDir (js ''src'')
                    (Some [DirentFile (js ''b.ts''), DirentFile (js ''README''),
                           DirentOther (js ''link.ts''), DirentFile (js ''c.md''),
                           DirentFile (js ''d.css''), DirentFile (js ''e.ts'')])]"

definition exFs :: filesystem where
  "exFs = \<lparr>stat = (\<lambda>p. if p = js ''r'' then Some True else None),
           readdir = (\<lambda>p. exTree),
           readFile = map_of [(js ''r/src/b.ts'', js ''// c''), (js ''r/src/d.css'', js ''x''),
                              (js ''r/src/e.ts'', js ''y'' @ [10] @ js ''z'')]\<rparr>"

definition exOpts :: options where
  "exOpts = \<lparr>extensions = [js ''ts'', js ''css''], excludeDirs = [js ''node_modules''],
             countEmpty = False, detectComments = True, format = Text, topN = 10\<rparr>"

definition exB :: fileStat where
  "exB = \<lparr>file' = js ''r/src/b.ts'', ext = js ''ts'', totalLines = 1, nonEmptyLines = 1,
           commentOnlyLines = 1\<rparr>"

definition exD :: fileStat where
  "exD = \<lparr>file' = js ''r/src/d.css'', ext = js ''css'', totalLines = 1, nonEmptyLines = 1,
           commentOnlyLines = 0\<rparr>"

definition exE :: fileStat where
  "exE = \<lparr>file' = js ''r/src/e.ts'', ext = js ''ts'', totalLines = 2, nonEmptyLines = 2,
           commentOnlyLines = 0\<rparr>"

definition exReport :: report where
  "exReport =
     \<lparr>target = js ''r'', totalFiles = 3, totalLinesR = 4, totalNonEmpty = 4, totalComments = 1,
      perExtension =
        [(js ''ts'', \<lparr>files = 2, totalLinesE = 3, nonEmptyE = 3, comments = 1\<rparr>),
         (js ''css'', \<lparr>files = 1, totalLinesE = 1, nonEmptyE = 1, comments = 0\<rparr>)],
      largest = [exE, exB, exD],
      allStats = [exB, exD, exE]\<rparr>"

section \<open>Properties of the string operations\<close>

lemma startsWith_Nil: "pat \<noteq> [] \<Longrightarrow> \<not> startsWith [] pat"
  by (auto simp: startsWith_def)

lemma searchFrom_absent:
  "pat \<noteq> [] \<Longrightarrow> \<forall>j<length cs. \<not> startsWith (drop j cs) pat \<Longrightarrow> searchFrom cs pat k = - 1"
proof (induction cs arbitrary: k)
  case Nil
  then show ?case by simp
next
  case (Cons c cs)
  from Cons.prems(2) have h0: "\<not> startsWith (c # cs) pat" by force
  have "\<forall>j<length cs. \<not> startsWith (drop j cs) pat"
  proof (intro allI impI)
    fix j assume "j < length cs"
    then have "Suc j < length (c # cs)" by simp
    with Cons.prems(2) have "\<not> startsWith (drop (Suc j) (c # cs)) pat" by blast
    then show "\<not> startsWith (drop j cs) pat" by simp
  qed
  with Cons.IH[OF Cons.prems(1)] have "searchFrom cs pat (Suc k) = - 1" by blast
  with h0 show ?case by simp
qed

lemma searchFrom_first:
  "pat \<noteq> [] \<Longrightarrow> startsWith (drop i cs) pat \<Longrightarrow> \<forall>j<i. \<not> startsWith (drop j cs) pat
     \<Longrightarrow> searchFrom cs pat k = int (k + i)"
proof (induction cs arbitrary: k i)
  case Nil
  then show ?case by (simp add: startsWith_Nil)
next
  case (Cons c cs)
  show ?case
  proof (cases i)
    case 0
    with Cons.prems show ?thesis by simp
  next
    case (Suc i')
    with Cons.prems(3) have h0: "\<not> startsWith (c # cs) pat" by force
    have a: "startsWith (drop i' cs) pat" using Cons.prems(2) Suc by simp
    have b: "\<forall>j<i'. \<not> startsWith (drop j cs) pat"
    proof (intro allI impI)
      fix j assume "j < i'"
      then have "Suc j < i" using Suc by simp
      with Cons.prems(3) have "\<not> startsWith (drop (Suc j) (c # cs)) pat" by blast
      then show "\<not> startsWith (drop j cs) pat" by simp
    qed
    have "searchFrom cs pat (Suc k) = int (Suc k + i')"
      by (rule Cons.IH[OF Cons.prems(1) a b])
    with h0 Suc show ?thesis by simp
  qed
qed

lemma occursAt_less: "pat \<noteq> [] \<Longrightarrow> occursAt s pat i \<Longrightarrow> i < length s"
  by (cases "i < length s") (auto simp: occursAt_def startsWith_def)

lemma indexOfFrom_absent:
  assumes "pat \<noteq> []" "absentFrom s pat f"
  shows "indexOfFrom s pat (int f) = - 1"
proof -
  let ?k = "min f (length s)"
  have "\<forall>j<length (drop ?k s). \<not> startsWith (drop j (drop ?k s)) pat"
  proof (intro allI impI)
    fix j assume j: "j < length (drop ?k s)"
    then have "j + ?k \<in> {f..<length s}" by (auto simp: min_def split: if_splits)
    with assms(2) have "\<not> occursAt s pat (j + ?k)" unfolding absentFrom_def by blast
    then show "\<not> startsWith (drop j (drop ?k s)) pat" by (simp add: occursAt_def)
  qed
  from searchFrom_absent[OF assms(1) this] show ?thesis
    by (simp add: indexOfFrom_def)
qed

lemma indexOfFrom_first:
  assumes "pat \<noteq> []" "firstAt s pat f i"
  shows "indexOfFrom s pat (int f) = int i"
proof -
  from assms(2) have fi: "f \<le> i" and occ: "occursAt s pat i"
    and fst: "\<forall>j\<in>{f..<i}. \<not> occursAt s pat j" by (auto simp: firstAt_def)
  from occursAt_less[OF assms(1) occ] have il: "i < length s" .
  with fi have k: "min f (length s) = f" by simp
  have a: "startsWith (drop (i - f) (drop f s)) pat" using occ fi by (simp add: occursAt_def)
  have b: "\<forall>j<i - f. \<not> startsWith (drop j (drop f s)) pat"
  proof (intro allI impI)
    fix j assume "j < i - f"
    then have "j + f \<in> {f..<i}" by auto
    with fst have "\<not> occursAt s pat (j + f)" by blast
    then show "\<not> startsWith (drop j (drop f s)) pat" by (simp add: occursAt_def)
  qed
  from searchFrom_first[OF assms(1) a b, of f] fi show ?thesis
    by (simp add: indexOfFrom_def k)
qed

lemma trim_eq_Nil: "(trim s = []) = (\<forall>c\<in>set s. isWhiteSpace c)"
proof
  assume "trim s = []"
  then have "\<forall>x\<in>set (dropWhile isWhiteSpace s). isWhiteSpace x"
    by (simp add: trim_def dropWhile_eq_Nil_conv)
  then have "dropWhile isWhiteSpace s = []"
    using hd_dropWhile[of isWhiteSpace s] hd_in_set[of "dropWhile isWhiteSpace s"] by blast
  then show "\<forall>c\<in>set s. isWhiteSpace c" by (simp add: dropWhile_eq_Nil_conv)
next
  assume "\<forall>c\<in>set s. isWhiteSpace c"
  then have h: "dropWhile isWhiteSpace s = []" by (simp add: dropWhile_eq_Nil_conv)
  show "trim s = []" by (simp only: trim_def h rev.simps dropWhile.simps)
qed

lemma slice_nat: "slice s (int i + int n) = drop (i + n) s"
  by (simp add: slice_def nat_add_distrib)

lemma slice_nat2: "slice s (int i + 2) = drop (i + 2) s"
  using slice_nat[of s i 2] by simp

lemma searchFrom_range: "searchFrom cs pat k = - 1 \<or> int k \<le> searchFrom cs pat k"
proof (induction cs arbitrary: k)
  case Nil
  show ?case by simp
next
  case (Cons c cs)
  from Cons.IH[of "Suc k"] show ?case by auto
qed

lemma searchFrom_here: "pat \<noteq> [] \<Longrightarrow> searchFrom cs pat k = int k \<Longrightarrow> startsWith cs pat"
proof (cases cs)
  case Nil
  assume "pat \<noteq> []" "searchFrom cs pat k = int k"
  with Nil show ?thesis by simp
next
  case (Cons c cs')
  assume a: "pat \<noteq> []" "searchFrom cs pat k = int k"
  show ?thesis
  proof (rule ccontr)
    assume n: "\<not> startsWith cs pat"
    with Cons a have "searchFrom cs' pat (Suc k) = int k" by simp
    with searchFrom_range[of cs' pat "Suc k"] show False by simp
  qed
qed

lemma indexOf_zero: "pat \<noteq> [] \<Longrightarrow> indexOf s pat = 0 \<Longrightarrow> startsWith s pat"
  using searchFrom_here[of pat s 0] by (simp add: indexOf_def indexOfFrom_def)

lemma indexOf_absent: "pat \<noteq> [] \<Longrightarrow> absentFrom s pat 0 \<Longrightarrow> indexOf s pat = - 1"
  using indexOfFrom_absent[of pat s 0] by (simp add: indexOf_def)

lemma indexOf_first: "pat \<noteq> [] \<Longrightarrow> firstAt s pat 0 i \<Longrightarrow> indexOf s pat = int i"
  using indexOfFrom_first[of pat s 0 i] by (simp add: indexOf_def)

lemma indexOf_startsWith: "pat \<noteq> [] \<Longrightarrow> startsWith s pat \<Longrightarrow> indexOf s pat = 0"
  using indexOf_first[of pat s 0] by (simp add: firstAt_def occursAt_def)

section \<open>Properties of the classifier\<close>

text \<open>The definitions that evaluate the classifier and the notions above on a given line.\<close>

lemmas classifier_defs =
  analyzeTextLines_def scanLines_def analyzeLine_def trimmedLine_def trim_def replaceTabs_def
  isWhiteSpace_def initialScan_def outsideBlock_def insideBlock_def isCStyle_def isHtmlLike_def
  startsWith_def indexOf_def indexOfFrom_def slice_def countComment_def openBlock_def
  closeBlock_def Let_def

lemmas notion_defs =
  occursAt_def absentFrom_def firstAt_def blankFrom_def terminator_def startsWith_def
  trimmedLine_def trim_def replaceTabs_def isWhiteSpace_def atLeastLessThan_upt upt_conv_Cons

lemma insideBlock_cases:
  "insideBlock tok st t = countComment st \<or> insideBlock tok st t = closeBlock (countComment st)
     \<or> insideBlock tok st t = closeBlock st"
  by (simp add: insideBlock_def Let_def)

lemma outsideBlock_cases:
  "outsideBlock x st t = st \<or> outsideBlock x st t = countComment st
     \<or> (isCStyle x \<and> outsideBlock x st t = openBlock BlockC (countComment st))
     \<or> (\<not> isCStyle x \<and> outsideBlock x st t = openBlock BlockHtml (countComment st))"
  by (simp add: outsideBlock_def Let_def)

lemma analyzeLine_cases:
  "analyzeLine x d st raw = st \<or>
   (\<exists>st1. st1 = st\<lparr>nonEmpty := nonEmpty st + 1\<rparr> \<and>
      (analyzeLine x d st raw = st1 \<or>
       d \<and> analyzeLine x d st raw = countComment st1 \<or>
       d \<and> analyzeLine x d st raw = closeBlock (countComment st1) \<or>
       d \<and> analyzeLine x d st raw = closeBlock st1 \<or>
       d \<and> isCStyle x \<and> analyzeLine x d st raw = openBlock BlockC (countComment st1) \<or>
       d \<and> \<not> isCStyle x \<and> analyzeLine x d st raw = openBlock BlockHtml (countComment st1)))"
  using insideBlock_cases[of "js ''*/''" "st\<lparr>nonEmpty := nonEmpty st + 1\<rparr>" "trimmedLine raw"]
        insideBlock_cases[of "js ''-->''" "st\<lparr>nonEmpty := nonEmpty st + 1\<rparr>" "trimmedLine raw"]
        outsideBlock_cases[of x "st\<lparr>nonEmpty := nonEmpty st + 1\<rparr>" "trimmedLine raw"]
  unfolding analyzeLine_def Let_def by (cases d) auto

lemma analyzeLine_counts:
  "commentOnly st \<le> nonEmpty st \<Longrightarrow>
     commentOnly (analyzeLine x d st raw) \<le> nonEmpty (analyzeLine x d st raw)
     \<and> nonEmpty (analyzeLine x d st raw) \<le> nonEmpty st + 1"
  using analyzeLine_cases[of x d st raw]
  by (auto simp: countComment_def closeBlock_def openBlock_def)

lemma analyzeLine_inv:
  "scanInv x d st \<Longrightarrow> scanInv x d (analyzeLine x d st raw)"
  using analyzeLine_cases[of x d st raw]
  by (auto simp: scanInv_def countComment_def closeBlock_def openBlock_def)

lemma scanLines_counts:
  "commentOnly st \<le> nonEmpty st \<Longrightarrow>
     commentOnly (scanLines x d st ls) \<le> nonEmpty (scanLines x d st ls)
     \<and> nonEmpty (scanLines x d st ls) \<le> nonEmpty st + length ls"
proof (induction ls arbitrary: st)
  case Nil
  then show ?case by (simp add: scanLines_def)
next
  case (Cons l ls)
  from analyzeLine_counts[OF Cons.prems, of x d l]
  have a: "commentOnly (analyzeLine x d st l) \<le> nonEmpty (analyzeLine x d st l)"
    and b: "nonEmpty (analyzeLine x d st l) \<le> nonEmpty st + 1" by auto
  from Cons.IH[OF a] b show ?case by (simp add: scanLines_def)
qed

lemma scanLines_inv:
  "scanInv x d st \<Longrightarrow> scanInv x d (scanLines x d st ls)"
  by (induction ls arbitrary: st) (simp_all add: scanLines_def analyzeLine_inv)

lemma initialScan_inv: "scanInv x d initialScan"
  by (simp add: scanInv_def initialScan_def)

lemma insideBlock_absent:
  "tok \<noteq> [] \<Longrightarrow> absentFrom t tok 0 \<Longrightarrow> insideBlock tok st t = countComment st"
  by (simp add: insideBlock_def indexOf_absent)

lemma insideBlock_first:
  "tok \<noteq> [] \<Longrightarrow> firstAt t tok 0 i \<Longrightarrow>
     insideBlock tok st t =
       (if blankFrom t (i + length tok) then closeBlock (countComment st) else closeBlock st)"
  by (simp add: insideBlock_def indexOf_first slice_nat trim_eq_Nil blankFrom_def)

lemma terminator_simps:
  "terminator BlockC = js ''*/''" "terminator BlockHtml = js ''-->''"
  by (simp_all add: terminator_def)

lemma analyzeLine_within:
  assumes "scanInv x d st" "withinBlock st" "trimmedLine raw \<noteq> []"
  shows "analyzeLine x d st raw =
           insideBlock (terminator (blockType st)) (st\<lparr>nonEmpty := nonEmpty st + 1\<rparr>) (trimmedLine raw)
         \<and> terminator (blockType st) \<noteq> []"
  using assms by (auto simp: scanInv_def analyzeLine_def Let_def terminator_simps)

text \<open>
  C2. In a file with extension \<open>x\<close> and detection flag \<open>d\<close>, the classifier is inside a
  block comment (after any lines \<open>pre\<close> of the file) and reads a non-blank line, whose trimmed text is \<open>t\<close>; \<open>tok\<close> is the terminator of the
  open block, \<^verbatim>\<open>*/\<close> or \<^verbatim>\<open>-->\<close>. If \<open>tok\<close> is absent from \<open>t\<close>, the line is counted as
  comment-only and the block stays open. If \<open>tok\<close> occurs, first at index \<open>i\<close>, and only
  whitespace follows it, the line is counted as comment-only and the block is closed. If
  something else follows it, the block is closed and the line is not counted; nothing
  else changes, whatever follows the terminator, so the rest of the line opens no new
  comment.
\<close>

theorem inside_block_line:
  assumes "st = scanLines x d initialScan pre"
    and "withinBlock st"
    and "t = trimmedLine raw" and "t \<noteq> []"
    and "tok = terminator (blockType st)"
    and "st' = analyzeLine x d st raw"
  shows "(absentFrom t tok 0 \<longrightarrow>
            st' = st\<lparr>nonEmpty := nonEmpty st + 1, commentOnly := commentOnly st + 1\<rparr>)
       \<and> (\<forall>i. firstAt t tok 0 i \<and> blankFrom t (i + length tok) \<longrightarrow>
            st' = st\<lparr>nonEmpty := nonEmpty st + 1, commentOnly := commentOnly st + 1,
                     withinBlock := False, blockType := BlockNull\<rparr>)
       \<and> (\<forall>i. firstAt t tok 0 i \<and> \<not> blankFrom t (i + length tok) \<longrightarrow>
            st' = st\<lparr>nonEmpty := nonEmpty st + 1, withinBlock := False, blockType := BlockNull\<rparr>)"
proof -
  have inv: "scanInv x d st"
    using assms(1) scanLines_inv[OF initialScan_inv] by simp
  from analyzeLine_within[OF inv assms(2)] assms(3,4,5,6)
  have eq: "st' = insideBlock tok (st\<lparr>nonEmpty := nonEmpty st + 1\<rparr>) t" and ne: "tok \<noteq> []"
    by auto
  show ?thesis
    by (auto simp: eq insideBlock_absent[OF ne] insideBlock_first[OF ne]
                   countComment_def closeBlock_def)
qed

lemma startsWith_open_not_line: "startsWith t (js ''/*'') \<Longrightarrow> \<not> startsWith t (js ''//'')"
  by (auto simp: startsWith_def)

lemma outsideBlock_line: "isCStyle x \<Longrightarrow> startsWith t (js ''//'') \<Longrightarrow> outsideBlock x st t = countComment st"
  by (simp add: outsideBlock_def)

lemma outsideBlock_open:
  assumes "isCStyle x" "startsWith t (js ''/*'')" "absentFrom t (js ''*/'') 2"
  shows "outsideBlock x st t = openBlock BlockC (countComment st)"
proof -
  have a: "indexOf t (js ''/*'') = 0" using assms(2) indexOf_startsWith[of "js ''/*''" t] by simp
  have b: "indexOfFrom t (js ''*/'') 2 = - 1"
    using indexOfFrom_absent[of "js ''*/''" t 2] assms(3) by simp
  show ?thesis using assms(1) startsWith_open_not_line[OF assms(2)] a b
    by (simp add: outsideBlock_def Let_def)
qed

lemma outsideBlock_closed:
  assumes "isCStyle x" "startsWith t (js ''/*'')" "firstAt t (js ''*/'') 2 e"
  shows "outsideBlock x st t = (if blankFrom t (e + 2) then countComment st else st)"
proof -
  have a: "indexOf t (js ''/*'') = 0" using assms(2) indexOf_startsWith[of "js ''/*''" t] by simp
  have b: "indexOfFrom t (js ''*/'') 2 = int e"
    using indexOfFrom_first[of "js ''*/''" t 2 e] assms(3) by simp
  show ?thesis using assms(1) startsWith_open_not_line[OF assms(2)] a b
    by (simp add: outsideBlock_def Let_def slice_nat2 trim_eq_Nil blankFrom_def)
qed

lemma outsideBlock_plain:
  assumes "isCStyle x" "\<not> startsWith t (js ''//'')" "\<not> startsWith t (js ''/*'')"
  shows "outsideBlock x st t = st"
proof -
  have "indexOf t (js ''/*'') \<noteq> 0" using assms(3) indexOf_zero[of "js ''/*''" t] by auto
  then show ?thesis using assms(1,2) by (simp add: outsideBlock_def Let_def)
qed

lemma analyzeLine_outside:
  assumes "\<not> withinBlock st" "trimmedLine raw \<noteq> []"
  shows "analyzeLine x True st raw = outsideBlock x (st\<lparr>nonEmpty := nonEmpty st + 1\<rparr>) (trimmedLine raw)"
  using assms by (simp add: analyzeLine_def Let_def)

theorem inside_block_line_witness:
  "withinBlock (scanLines (js ''ts'') True initialScan [js ''/*''])
   \<and> trimmedLine (js ''*/ x /* y'') \<noteq> []
   \<and> firstAt (trimmedLine (js ''*/ x /* y'')) (js ''*/'') 0 0
   \<and> \<not> blankFrom (trimmedLine (js ''*/ x /* y'')) 2
   \<and> analyzeLine (js ''ts'') True (scanLines (js ''ts'') True initialScan [js ''/*''])
         (js ''*/ x /* y'')
       = \<lparr>nonEmpty = 2, commentOnly = 1, withinBlock = False, blockType = BlockNull\<rparr>"
proof -
  let ?st = "scanLines (js ''ts'') True initialScan [js ''/*'']"
  let ?raw = "js ''*/ x /* y''"
  let ?t = "trimmedLine ?raw"
  let ?tok = "terminator (blockType ?st)"
  have st: "?st = \<lparr>nonEmpty = 1, commentOnly = 1, withinBlock = True, blockType = BlockC\<rparr>"
    by (simp add: classifier_defs)
  have h1: "withinBlock ?st" using st by simp
  have h2: "?t \<noteq> []" by (simp add: notion_defs)
  have tok: "?tok = js ''*/''" using st by (simp add: terminator_def)
  have f: "firstAt ?t (js ''*/'') 0 0" by (simp add: notion_defs)
  have nb: "\<not> blankFrom ?t 2" by (simp add: notion_defs)
  have f': "firstAt ?t ?tok 0 0" unfolding tok by (rule f)
  have nb': "\<not> blankFrom ?t (0 + length ?tok)" unfolding tok by (simp add: notion_defs)
  from inside_block_line[OF refl h1 refl h2 refl refl] f' nb'
  have "analyzeLine (js ''ts'') True ?st ?raw
          = ?st\<lparr>nonEmpty := nonEmpty ?st + 1, withinBlock := False, blockType := BlockNull\<rparr>"
    by blast
  then have "analyzeLine (js ''ts'') True ?st ?raw
          = \<lparr>nonEmpty = 2, commentOnly = 1, withinBlock = False, blockType = BlockNull\<rparr>"
    using st by simp
  with h1 h2 f nb show ?thesis by blast
qed

text \<open>
  C3. The classifier is outside a block comment, with detection on, in a file whose
  extension \<open>x\<close> is of the c-style family, and reads a non-blank line whose trimmed text is \<open>t\<close>. The cases are
  tried in this order. A line that starts with \<^verbatim>\<open>//\<close> is counted as comment-only. A line
  that starts with \<^verbatim>\<open>/*\<close> and has no \<^verbatim>\<open>*/\<close> after it is counted and opens a block. A line
  that starts with \<^verbatim>\<open>/*\<close> and has \<^verbatim>\<open>*/\<close> after it, first at index \<open>e\<close>, is counted exactly
  when only whitespace follows that \<^verbatim>\<open>*/\<close>, and opens no block. A line that does not start
  with \<^verbatim>\<open>//\<close> and in which \<^verbatim>\<open>/*\<close> occurs first at an index other than 0 is not counted and
  opens no block.
\<close>

theorem outside_block_cstyle_line:
  assumes "isCStyle x" and "\<not> withinBlock st"
    and "t = trimmedLine raw" and "t \<noteq> []"
    and "st' = analyzeLine x True st raw"
  shows "(startsWith t (js ''//'') \<longrightarrow>
            st' = st\<lparr>nonEmpty := nonEmpty st + 1, commentOnly := commentOnly st + 1\<rparr>)
       \<and> (startsWith t (js ''/*'') \<and> absentFrom t (js ''*/'') 2 \<longrightarrow>
            st' = st\<lparr>nonEmpty := nonEmpty st + 1, commentOnly := commentOnly st + 1,
                     withinBlock := True, blockType := BlockC\<rparr>)
       \<and> (\<forall>e. startsWith t (js ''/*'') \<and> firstAt t (js ''*/'') 2 e \<longrightarrow>
            st' = (if blankFrom t (e + 2)
                   then st\<lparr>nonEmpty := nonEmpty st + 1, commentOnly := commentOnly st + 1\<rparr>
                   else st\<lparr>nonEmpty := nonEmpty st + 1\<rparr>))
       \<and> (\<forall>i. firstAt t (js ''/*'') 0 i \<and> i \<noteq> 0 \<and> \<not> startsWith t (js ''//'') \<longrightarrow>
            st' = st\<lparr>nonEmpty := nonEmpty st + 1\<rparr>)"
proof -
  have eq: "st' = outsideBlock x (st\<lparr>nonEmpty := nonEmpty st + 1\<rparr>) t"
    using analyzeLine_outside[OF assms(2), of raw x] assms(3,4,5) by simp
  have d: "\<not> startsWith t (js ''/*'')" if "firstAt t (js ''/*'') 0 i" "i \<noteq> 0" for i
  proof
    assume "startsWith t (js ''/*'')"
    then have "occursAt t (js ''/*'') 0" by (simp add: occursAt_def)
    moreover from that have "0 \<in> {0..<i}" by simp
    ultimately show False using that(1) unfolding firstAt_def by blast
  qed
  show ?thesis
    using d
    by (auto simp: eq outsideBlock_line[OF assms(1)] outsideBlock_open[OF assms(1)]
          outsideBlock_closed[OF assms(1)] outsideBlock_plain[OF assms(1)]
          countComment_def openBlock_def)
qed

theorem outside_block_cstyle_line_witness:
  "isCStyle (js ''ts'') \<and> \<not> withinBlock initialScan
   \<and> trimmedLine (js ''  /* a */ b'') \<noteq> []
   \<and> startsWith (trimmedLine (js ''  /* a */ b'')) (js ''/*'')
   \<and> firstAt (trimmedLine (js ''  /* a */ b'')) (js ''*/'') 2 5
   \<and> \<not> blankFrom (trimmedLine (js ''  /* a */ b'')) (5 + 2)
   \<and> analyzeLine (js ''ts'') True initialScan (js ''  /* a */ b'')
       = \<lparr>nonEmpty = 1, commentOnly = 0, withinBlock = False, blockType = BlockNull\<rparr>"
proof -
  let ?raw = "js ''  /* a */ b''"
  let ?t = "trimmedLine ?raw"
  have h1: "isCStyle (js ''ts'')" by (simp add: isCStyle_def)
  have h2: "\<not> withinBlock initialScan" by (simp add: initialScan_def)
  have h3: "?t \<noteq> []" by (simp add: notion_defs)
  have s: "startsWith ?t (js ''/*'')" by (simp add: notion_defs)
  have f: "firstAt ?t (js ''*/'') 2 5" by (simp add: notion_defs)
  have nb: "\<not> blankFrom ?t (5 + 2)" by (simp add: notion_defs)
  from outside_block_cstyle_line[OF h1 h2 refl h3 refl] s f nb
  have "analyzeLine (js ''ts'') True initialScan ?raw
          = initialScan\<lparr>nonEmpty := nonEmpty initialScan + 1\<rparr>"
    by metis
  then have "analyzeLine (js ''ts'') True initialScan ?raw
          = \<lparr>nonEmpty = 1, commentOnly = 0, withinBlock = False, blockType = BlockNull\<rparr>"
    by (simp add: initialScan_def)
  with h1 h2 h3 s f nb show ?thesis by blast
qed

text \<open>
  C1. For every sequence of lines, every extension \<open>x\<close> and either setting \<open>d\<close> of comment
  detection, the counters that \<open>analyzeTextLines\<close> returns satisfy
  \<open>0 \<le> commentOnly \<le> nonEmpty \<le> total\<close>; so do the counters of every record that
  \<open>analyzeFile\<close> returns.
\<close>

theorem counters_ordered:
  "(case analyzeTextLines lines x d of
      (t, n, c) \<Rightarrow> 0 \<le> c \<and> c \<le> n \<and> n \<le> t)
   \<and> (case analyzeFile P fs filePath opts of
        None \<Rightarrow> True
      | Some s \<Rightarrow> 0 \<le> commentOnlyLines s \<and> commentOnlyLines s \<le> nonEmptyLines s
                 \<and> nonEmptyLines s \<le> totalLines s)"
proof -
  have a: "(case analyzeTextLines ls y b of (t, n, c) \<Rightarrow> 0 \<le> c \<and> c \<le> n \<and> n \<le> t)"
    for ls y b
    using scanLines_counts[of initialScan y b ls]
    by (simp add: analyzeTextLines_def Let_def initialScan_def)
  have b: "(case analyzeFile P fs filePath opts of
        None \<Rightarrow> True
      | Some s \<Rightarrow> 0 \<le> commentOnlyLines s \<and> commentOnlyLines s \<le> nonEmptyLines s
                 \<and> nonEmptyLines s \<le> totalLines s)"
  proof (cases "readFile fs filePath")
    case None
    then show ?thesis by (simp add: analyzeFile_def)
  next
    case (Some content)
    let ?e = "if fileExt P filePath = [] then js ''unknown'' else fileExt P filePath"
    obtain t n c where r: "analyzeTextLines (splitLines content) ?e (detectComments opts) = (t, n, c)"
      by (cases "analyzeTextLines (splitLines content) ?e (detectComments opts)")
    from a[of "splitLines content" ?e "detectComments opts"] r
    have "c \<le> n \<and> n \<le> t" by simp
    with Some r show ?thesis by (simp add: analyzeFile_def Let_def)
  qed
  from a[of lines x d] b show ?thesis by (rule conjI)
qed

lemma scanLines_Cons: "scanLines x d st (l # ls) = scanLines x d (analyzeLine x d st l) ls"
  by (simp add: scanLines_def)

lemma scanLines_append: "scanLines x d st (ls @ ms) = scanLines x d (scanLines x d st ls) ms"
  by (simp add: scanLines_def)

lemma analyzeLine_blank: "trimmedLine r = [] \<Longrightarrow> analyzeLine x d st r = st"
  by (simp add: analyzeLine_def)

lemma analyzeLine_block_absent:
  assumes "withinBlock st" "blockType st = BlockC" "absentFrom (trimmedLine r) (js ''*/'') 0"
    and "trimmedLine r \<noteq> []"
  shows "analyzeLine x True st r
           = st\<lparr>nonEmpty := nonEmpty st + 1, commentOnly := commentOnly st + 1\<rparr>"
proof -
  have "insideBlock (js ''*/'') (st\<lparr>nonEmpty := nonEmpty st + 1\<rparr>) (trimmedLine r)
          = countComment (st\<lparr>nonEmpty := nonEmpty st + 1\<rparr>)"
    using insideBlock_absent[of "js ''*/''" "trimmedLine r"] assms(3) by simp
  then show ?thesis using assms(1,2,4)
    by (simp add: analyzeLine_def Let_def countComment_def)
qed

lemma scanLines_block_absent:
  assumes "withinBlock st" "blockType st = BlockC"
    and "\<forall>r\<in>set rest. absentFrom (trimmedLine r) (js ''*/'') 0"
  shows "scanLines x True st rest
           = st\<lparr>nonEmpty := nonEmpty st + length (filter (\<lambda>r. trimmedLine r \<noteq> []) rest),
                commentOnly := commentOnly st + length (filter (\<lambda>r. trimmedLine r \<noteq> []) rest)\<rparr>"
  using assms
proof (induction rest arbitrary: st)
  case Nil
  show ?case by (simp add: scanLines_def)
next
  case (Cons r rest)
  show ?case
  proof (cases "trimmedLine r = []")
    case True
    then have "analyzeLine x True st r = st" by (rule analyzeLine_blank)
    with Cons True show ?thesis by (simp add: scanLines_Cons)
  next
    case False
    from Cons.prems have a: "absentFrom (trimmedLine r) (js ''*/'') 0" by simp
    let ?st1 = "st\<lparr>nonEmpty := nonEmpty st + 1, commentOnly := commentOnly st + 1\<rparr>"
    have step: "analyzeLine x True st r = ?st1"
      by (rule analyzeLine_block_absent[OF Cons.prems(1,2) a False])
    have w: "withinBlock ?st1" "blockType ?st1 = BlockC" using Cons.prems(1,2) by simp_all
    have r: "\<forall>r\<in>set rest. absentFrom (trimmedLine r) (js ''*/'') 0" using Cons.prems(3) by simp
    from Cons.IH[OF w r] step False show ?thesis by (simp add: scanLines_Cons)
  qed
qed

lemma startsWith_nonblank: "startsWith t (js ''/*'') \<Longrightarrow> t \<noteq> []"
  by (auto simp: startsWith_def)

text \<open>
  C8, amended. In a file whose extension \<open>x\<close> is of the c-style family, with detection on,
  let \<open>l\<close> be a line
  whose trimmed text starts with \<^verbatim>\<open>/*\<close>, with no \<^verbatim>\<open>*/\<close> after that \<^verbatim>\<open>/*\<close> on \<open>l\<close> nor
  anywhere on the lines \<open>rest\<close> that follow it to the end of the file; the classifier is
  outside a block when it reaches \<open>l\<close>, or \<open>l\<close> has no \<^verbatim>\<open>*/\<close> at all. Then every non-blank
  line from \<open>l\<close> on is counted as comment-only: the count grows by the number \<open>k\<close> of
  non-blank lines among \<open>l\<close> and \<open>rest\<close>. Blank lines are not counted.
\<close>

theorem unterminated_block_comment:
  assumes "isCStyle x" and "st = scanLines x True initialScan pre"
    and "startsWith (trimmedLine l) (js ''/*'')"
    and "absentFrom (trimmedLine l) (js ''*/'') 2"
    and "\<not> withinBlock st \<or> absentFrom (trimmedLine l) (js ''*/'') 0"
    and "\<forall>r\<in>set rest. absentFrom (trimmedLine r) (js ''*/'') 0"
    and "k = length (filter (\<lambda>r. trimmedLine r \<noteq> []) (l # rest))"
  shows "scanLines x True st (l # rest)
           = st\<lparr>nonEmpty := nonEmpty st + k, commentOnly := commentOnly st + k,
                withinBlock := True, blockType := BlockC\<rparr>
         \<and> analyzeTextLines (pre @ l # rest) x True
           = (length pre + 1 + length rest, nonEmpty st + k, commentOnly st + k)"
proof -
  let ?t = "trimmedLine l"
  let ?st1 = "st\<lparr>nonEmpty := nonEmpty st + 1, commentOnly := commentOnly st + 1,
                 withinBlock := True, blockType := BlockC\<rparr>"
  have ne: "?t \<noteq> []" using assms(3) by (rule startsWith_nonblank)
  have inv: "scanInv x True st" using assms(2) scanLines_inv[OF initialScan_inv] by simp
  have step: "analyzeLine x True st l = ?st1"
  proof (cases "withinBlock st")
    case False
    have "analyzeLine x True st l = outsideBlock x (st\<lparr>nonEmpty := nonEmpty st + 1\<rparr>) ?t"
      by (rule analyzeLine_outside[OF False ne])
    also have "\<dots> = openBlock BlockC (countComment (st\<lparr>nonEmpty := nonEmpty st + 1\<rparr>))"
      by (rule outsideBlock_open[OF assms(1,3,4)])
    finally show ?thesis by (simp add: openBlock_def countComment_def)
  next
    case True
    with inv assms(1) have b: "blockType st = BlockC" by (auto simp: scanInv_def)
    from True assms(5) have a: "absentFrom ?t (js ''*/'') 0" by simp
    from analyzeLine_block_absent[OF True b a ne, of x] True b show ?thesis by simp
  qed
  have w: "withinBlock ?st1" "blockType ?st1 = BlockC" by simp_all
  let ?n = "length (filter (\<lambda>r. trimmedLine r \<noteq> []) rest)"
  have k: "k = Suc ?n" using assms(7) ne by simp
  have rest: "scanLines x True ?st1 rest
                = ?st1\<lparr>nonEmpty := nonEmpty ?st1 + ?n, commentOnly := commentOnly ?st1 + ?n\<rparr>"
    by (rule scanLines_block_absent[OF w assms(6)])
  have main: "scanLines x True st (l # rest)
                = st\<lparr>nonEmpty := nonEmpty st + k, commentOnly := commentOnly st + k,
                     withinBlock := True, blockType := BlockC\<rparr>"
    using rest step k by (simp add: scanLines_Cons)
  have "scanLines x True initialScan (pre @ l # rest) = scanLines x True st (l # rest)"
    using assms(2) by (simp add: scanLines_append)
  with main show ?thesis by (simp add: analyzeTextLines_def Let_def)
qed

theorem unterminated_block_comment_witness:
  "isCStyle (js ''ts'')
   \<and> startsWith (trimmedLine (js ''/* a'')) (js ''/*'')
   \<and> absentFrom (trimmedLine (js ''/* a'')) (js ''*/'') 2
   \<and> \<not> withinBlock (scanLines (js ''ts'') True initialScan [js ''f();''])
   \<and> absentFrom (trimmedLine (js '''')) (js ''*/'') 0
   \<and> absentFrom (trimmedLine (js '' * b'')) (js ''*/'') 0
   \<and> length (filter (\<lambda>r. trimmedLine r \<noteq> []) [js ''/* a'', js '''', js '' * b'']) = 2
   \<and> analyzeTextLines [js ''f();'', js ''/* a'', js '''', js '' * b''] (js ''ts'') True = (4, 3, 2)"
proof -
  let ?st = "scanLines (js ''ts'') True initialScan [js ''f();'']"
  let ?l = "js ''/* a''"
  let ?rest = "[js '''', js '' * b'']"
  have st: "?st = \<lparr>nonEmpty = 1, commentOnly = 0, withinBlock = False, blockType = BlockNull\<rparr>"
    by (simp add: classifier_defs)
  have h1: "isCStyle (js ''ts'')" by (simp add: isCStyle_def)
  have h3: "startsWith (trimmedLine ?l) (js ''/*'')" by (simp add: notion_defs)
  have h4: "absentFrom (trimmedLine ?l) (js ''*/'') 2" by (simp add: notion_defs)
  have h5: "\<not> withinBlock ?st" using st by simp
  have r1: "absentFrom (trimmedLine (js '''')) (js ''*/'') 0" by (simp add: notion_defs)
  have r2: "absentFrom (trimmedLine (js '' * b'')) (js ''*/'') 0" by (simp add: notion_defs)
  have h6: "\<forall>r\<in>set ?rest. absentFrom (trimmedLine r) (js ''*/'') 0" using r1 r2 by simp
  have k: "length (filter (\<lambda>r. trimmedLine r \<noteq> []) (?l # ?rest)) = 2" by (simp add: notion_defs)
  from unterminated_block_comment[OF h1 refl h3 h4 disjI1[OF h5] h6 refl]
  have "analyzeTextLines ([js ''f();''] @ ?l # ?rest) (js ''ts'') True
          = (length [js ''f();''] + 1 + length ?rest,
             nonEmpty ?st + length (filter (\<lambda>r. trimmedLine r \<noteq> []) (?l # ?rest)),
             commentOnly ?st + length (filter (\<lambda>r. trimmedLine r \<noteq> []) (?l # ?rest)))"
    by (rule conjunct2)
  then have "analyzeTextLines [js ''f();'', ?l, js '''', js '' * b''] (js ''ts'') True = (4, 3, 2)"
    unfolding k using st by simp
  with h1 h3 h4 h5 r1 r2 k show ?thesis by blast
qed

text \<open>
  C8 as stated fails. Of the three lines \<^verbatim>\<open>/*\<close>, an empty line and \<^verbatim>\<open>x\<close>, all from the
  \<^verbatim>\<open>/*\<close> line on, two are counted as comment-only: the blank line inside the comment is
  not. With detection off none is counted.
\<close>

theorem unterminated_block_comment_counterexample:
  "analyzeTextLines [js ''/*'', js '''', js ''x''] (js ''ts'') True = (3, 2, 2)
   \<and> analyzeTextLines [js ''/*'', js ''x''] (js ''ts'') False = (2, 2, 0)"
  by (simp add: classifier_defs)

lemma analyzeLine_plain:
  assumes "isCStyle x" "\<not> withinBlock st"
    and "\<not> startsWith (trimmedLine r) (js ''//'')" "\<not> startsWith (trimmedLine r) (js ''/*'')"
  shows "analyzeLine x d st r
           = (if trimmedLine r = [] then st else st\<lparr>nonEmpty := nonEmpty st + 1\<rparr>)"
  using assms(2) outsideBlock_plain[OF assms(1,3,4)]
  by (simp add: analyzeLine_def Let_def)

lemma scanLines_plain:
  assumes "isCStyle x" "\<not> withinBlock st"
    and "\<forall>r\<in>set rest. \<not> startsWith (trimmedLine r) (js ''//'')
                        \<and> \<not> startsWith (trimmedLine r) (js ''/*'')"
  shows "scanLines x d st rest
           = st\<lparr>nonEmpty := nonEmpty st + length (filter (\<lambda>r. trimmedLine r \<noteq> []) rest)\<rparr>"
  using assms(2,3)
proof (induction rest arbitrary: st)
  case Nil
  show ?case by (simp add: scanLines_def)
next
  case (Cons r rest)
  from Cons.prems(2) have p: "\<not> startsWith (trimmedLine r) (js ''//'')"
    "\<not> startsWith (trimmedLine r) (js ''/*'')" by simp_all
  have step: "analyzeLine x d st r
                = (if trimmedLine r = [] then st else st\<lparr>nonEmpty := nonEmpty st + 1\<rparr>)"
    by (rule analyzeLine_plain[OF assms(1) Cons.prems(1) p])
  have w: "\<not> withinBlock (analyzeLine x d st r)" using step Cons.prems(1) by simp
  have r: "\<forall>r\<in>set rest. \<not> startsWith (trimmedLine r) (js ''//'')
                        \<and> \<not> startsWith (trimmedLine r) (js ''/*'')"
    using Cons.prems(2) by simp
  from Cons.IH[OF w r] step show ?case by (simp add: scanLines_Cons)
qed

lemma firstAt_later_not_start:
  assumes "firstAt t pat 0 i" "i \<noteq> 0"
  shows "\<not> startsWith t pat"
proof
  assume "startsWith t pat"
  then have "occursAt t pat 0" by (simp add: occursAt_def)
  moreover from assms(2) have "0 \<in> {0..<i}" by simp
  ultimately show False using assms(1) unfolding firstAt_def by blast
qed

text \<open>
  C9, amended. In a file whose extension \<open>x\<close> is of the c-style family, with detection
  on or off (\<open>d\<close>), outside a block, a line \<open>l\<close> in which
  \<^verbatim>\<open>/*\<close> occurs first at an index other than 0 (whether or not \<^verbatim>\<open>*/\<close> follows it) opens no
  block. The next non-blank line is classified by the rules for a line outside a block.
  As long as the lines \<open>rest\<close> that follow start with neither \<^verbatim>\<open>//\<close> nor \<^verbatim>\<open>/*\<close>, none of
  them is counted as comment-only and no block opens.
\<close>

theorem comment_after_code_opens_no_block:
  assumes "isCStyle x" and "\<not> withinBlock st"
    and "firstAt (trimmedLine l) (js ''/*'') 0 i" and "i \<noteq> 0"
    and "\<forall>r\<in>set rest. \<not> startsWith (trimmedLine r) (js ''//'')
                        \<and> \<not> startsWith (trimmedLine r) (js ''/*'')"
    and "st1 = analyzeLine x d st l"
  shows "\<not> withinBlock st1
       \<and> (\<forall>r. d \<and> trimmedLine r \<noteq> [] \<longrightarrow>
             analyzeLine x d st1 r
               = outsideBlock x (st1\<lparr>nonEmpty := nonEmpty st1 + 1\<rparr>) (trimmedLine r))
       \<and> scanLines x d st1 rest
           = st1\<lparr>nonEmpty := nonEmpty st1 + length (filter (\<lambda>r. trimmedLine r \<noteq> []) rest)\<rparr>"
proof -
  let ?t = "trimmedLine l"
  have ns: "\<not> startsWith ?t (js ''/*'')" by (rule firstAt_later_not_start[OF assms(3,4)])
  have ne: "?t \<noteq> []" using occursAt_less[of "js ''/*''" ?t i] assms(3)
    by (auto simp: firstAt_def)
  have w: "\<not> withinBlock st1"
  proof (cases d)
    case False
    with assms(2,6) show ?thesis by (simp add: analyzeLine_def Let_def)
  next
    case True
    show ?thesis
    proof (cases "startsWith ?t (js ''//'')")
      case s: True
      from True assms(2,6) ne outsideBlock_line[OF assms(1) s] show ?thesis
        by (simp add: analyzeLine_def Let_def countComment_def)
    next
      case s: False
      from analyzeLine_plain[OF assms(1,2) s ns, of d] assms(2,6) show ?thesis by simp
    qed
  qed
  have nxt: "analyzeLine x d st1 r
               = outsideBlock x (st1\<lparr>nonEmpty := nonEmpty st1 + 1\<rparr>) (trimmedLine r)"
    if "d" "trimmedLine r \<noteq> []" for r
    using that w by (simp add: analyzeLine_def Let_def)
  from scanLines_plain[OF assms(1) w assms(5)] w nxt show ?thesis by blast
qed

theorem comment_after_code_opens_no_block_witness:
  "isCStyle (js ''ts'') \<and> \<not> withinBlock initialScan
   \<and> firstAt (trimmedLine (js ''x /* a'')) (js ''/*'') 0 2 \<and> (2::nat) \<noteq> 0
   \<and> \<not> startsWith (trimmedLine (js '' * b'')) (js ''//'')
   \<and> \<not> startsWith (trimmedLine (js '' * b'')) (js ''/*'')
   \<and> \<not> startsWith (trimmedLine (js ''c */'')) (js ''//'')
   \<and> \<not> startsWith (trimmedLine (js ''c */'')) (js ''/*'')
   \<and> \<not> withinBlock (analyzeLine (js ''ts'') True initialScan (js ''x /* a''))
   \<and> scanLines (js ''ts'') True (analyzeLine (js ''ts'') True initialScan (js ''x /* a''))
         [js '' * b'', js ''c */'']
       = \<lparr>nonEmpty = 3, commentOnly = 0, withinBlock = False, blockType = BlockNull\<rparr>"
proof -
  let ?l = "js ''x /* a''"
  let ?rest = "[js '' * b'', js ''c */'']"
  let ?st1 = "analyzeLine (js ''ts'') True initialScan ?l"
  have h1: "isCStyle (js ''ts'')" by (simp add: isCStyle_def)
  have h2: "\<not> withinBlock initialScan" by (simp add: initialScan_def)
  have h3: "firstAt (trimmedLine ?l) (js ''/*'') 0 2" by (simp add: notion_defs)
  have h4: "(2::nat) \<noteq> 0" by simp
  have r1: "\<not> startsWith (trimmedLine (js '' * b'')) (js ''//'')" by (simp add: notion_defs)
  have r2: "\<not> startsWith (trimmedLine (js '' * b'')) (js ''/*'')" by (simp add: notion_defs)
  have r3: "\<not> startsWith (trimmedLine (js ''c */'')) (js ''//'')" by (simp add: notion_defs)
  have r4: "\<not> startsWith (trimmedLine (js ''c */'')) (js ''/*'')" by (simp add: notion_defs)
  have h5: "\<forall>r\<in>set ?rest. \<not> startsWith (trimmedLine r) (js ''//'')
                        \<and> \<not> startsWith (trimmedLine r) (js ''/*'')"
    using r1 r2 r3 r4 by simp
  have st1: "?st1 = \<lparr>nonEmpty = 1, commentOnly = 0, withinBlock = False, blockType = BlockNull\<rparr>"
    by (simp add: classifier_defs)
  have k: "length (filter (\<lambda>r. trimmedLine r \<noteq> []) ?rest) = 2" by (simp add: notion_defs)
  note th = comment_after_code_opens_no_block[OF h1 h2 h3 h4 h5 refl, of True]
  from th have w: "\<not> withinBlock ?st1" by (rule conjunct1)
  from th have "scanLines (js ''ts'') True ?st1 ?rest
      = ?st1\<lparr>nonEmpty := nonEmpty ?st1 + length (filter (\<lambda>r. trimmedLine r \<noteq> []) ?rest)\<rparr>"
    by blast
  then have "scanLines (js ''ts'') True ?st1 ?rest
      = \<lparr>nonEmpty = 3, commentOnly = 0, withinBlock = False, blockType = BlockNull\<rparr>"
    unfolding k using st1 by simp
  with h1 h2 h3 h4 r1 r2 r3 r4 w show ?thesis by blast
qed

text \<open>
  C9 as stated fails. After \<^verbatim>\<open>x /* a\<close> the comment is still open in the text. The
  continuation line \<^verbatim>\<open>// b\<close> is counted as comment-only, by the rule for \<^verbatim>\<open>//\<close>. A
  continuation line \<^verbatim>\<open>/* b\<close> is counted too and opens a block, so that the line \<^verbatim>\<open>c\<close>
  after it is classified by the rules for a line inside a block, and counted.
\<close>

theorem comment_after_code_counterexample:
  "analyzeTextLines [js ''x /* a'', js ''// b'', js ''c */''] (js ''ts'') True = (3, 3, 1)
   \<and> analyzeTextLines [js ''x /* a'', js ''/* b'', js ''c''] (js ''ts'') True = (3, 3, 2)"
  by (simp add: classifier_defs)

text \<open>
  C10. For a file that is read and whose content is the empty string, \<open>analyzeFile\<close>
  returns one total line, no non-empty line and no comment-only line: splitting the
  empty content gives the single empty line.
\<close>

theorem empty_file_counts:
  assumes "readFile fs filePath = Some []"
  shows "analyzeFile P fs filePath opts
           = Some \<lparr>file' = filePath,
                   ext = (if fileExt P filePath = [] then js ''unknown'' else fileExt P filePath),
                   totalLines = 1, nonEmptyLines = 0, commentOnlyLines = 0\<rparr>"
proof -
  have "analyzeTextLines [[]] e b = (1, 0, 0)" for e b
    by (simp add: analyzeTextLines_def scanLines_def analyzeLine_def trimmedLine_def trim_def
          replaceTabs_def initialScan_def)
  with assms show ?thesis by (simp add: analyzeFile_def Let_def)
qed

theorem empty_file_counts_witness:
  "readFile \<lparr>stat = (\<lambda>p. None), readdir = (\<lambda>p. None), readFile = (\<lambda>p. Some [])\<rparr> (js ''a.ts'')
     = Some []
   \<and> analyzeFile examplePlatform
        \<lparr>stat = (\<lambda>p. None), readdir = (\<lambda>p. None), readFile = (\<lambda>p. Some [])\<rparr> (js ''a.ts'')
        \<lparr>extensions = [], excludeDirs = [], countEmpty = False, detectComments = True,
         format = Text, topN = 10\<rparr>
     = Some \<lparr>file' = js ''a.ts'', ext = js ''ts'', totalLines = 1, nonEmptyLines = 0,
             commentOnlyLines = 0\<rparr>"
proof -
  let ?fs = "\<lparr>stat = (\<lambda>p. None), readdir = (\<lambda>p. None), readFile = (\<lambda>p. Some [])\<rparr>"
  have h: "readFile ?fs (js ''a.ts'') = Some []" by simp
  have e: "fileExt examplePlatform (js ''a.ts'') = js ''ts''"
    by (simp add: fileExt_def examplePlatform_def stripDot_def)
  from empty_file_counts[OF h, of examplePlatform] h show ?thesis
    unfolding e by simp
qed

section \<open>Properties of the aggregator, the walker and the run\<close>

lemma insertBy_insort:
  "insertBy (\<lambda>a b. int (g b) - int (g a)) x ys = insort_key (\<lambda>f. - int (g f)) x ys"
  by (induction ys) auto

lemma sortBy_sort_key:
  "sortBy (\<lambda>a b. int (g b) - int (g a)) xs = sort_key (\<lambda>f. - int (g f)) xs"
  by (induction xs) (simp_all add: sortBy_def insertBy_insort)

lemma sorted_neg_key:
  "sorted (map (\<lambda>f. - int (g f)) ys) = sorted_wrt (\<lambda>a b. g b \<le> g a) ys"
  by (simp add: sorted_map)

lemma sortBy_stable_sorted:
  "stableSortedDesc stats (sortBy (\<lambda>a b. int (totalLines b) - int (totalLines a)) stats)"
proof -
  let ?key = "\<lambda>f. - int (totalLines f)"
  have s: "sorted_wrt (\<lambda>a b. totalLines b \<le> totalLines a) (sort_key ?key stats)"
    using sorted_sort_key[of ?key stats] by (simp add: sorted_neg_key)
  have f: "filter (\<lambda>f. totalLines f = k) (sort_key ?key stats)
             = filter (\<lambda>f. totalLines f = k) stats" for k
    using sort_key_stable[of ?key "- int k" stats] by simp
  show ?thesis
    unfolding stableSortedDesc_def sortBy_sort_key using s f by simp
qed

lemma stable_sorted_unique:
  assumes "stableSortedDesc stats ys"
  shows "sortBy (\<lambda>a b. int (totalLines b) - int (totalLines a)) stats = ys"
proof -
  let ?key = "\<lambda>f. - int (totalLines f)"
  from assms have m: "mset ys = mset stats"
    and s: "sorted_wrt (\<lambda>a b. totalLines b \<le> totalLines a) ys"
    and f: "\<forall>k\<in>set (map totalLines stats).
              filter (\<lambda>f. totalLines f = k) ys = filter (\<lambda>f. totalLines f = k) stats"
    by (simp_all add: stableSortedDesc_def)
  have "sort_key ?key stats = ys"
  proof (rule properties_for_sort_key)
    show "mset ys = mset stats" by (rule m)
    show "sorted (map ?key ys)" using s by (simp add: sorted_neg_key)
    fix k assume "k \<in> set ys"
    then have "k \<in> set stats" using m by (metis set_mset_mset)
    then have "totalLines k \<in> set (map totalLines stats)" by simp
    with f have g: "filter (\<lambda>f. totalLines f = totalLines k) ys
                   = filter (\<lambda>f. totalLines f = totalLines k) stats" by blast
    have e: "(\<lambda>x. ?key k = ?key x) = (\<lambda>f. totalLines f = totalLines k)" by auto
    show "filter (\<lambda>x. ?key k = ?key x) ys = filter (\<lambda>x. ?key k = ?key x) stats"
      unfolding e by (rule g)
  qed
  then show ?thesis by (simp add: sortBy_sort_key)
qed

lemma stable_sorted_length: "stableSortedDesc stats ys \<Longrightarrow> length ys = length stats"
  by (metis stableSortedDesc_def size_mset)

text \<open>
  C5. For every list of file records and every \<open>n\<close>, the list of largest files is the
  first \<open>n\<close> entries of the records sorted by total line count, largest first, ties in
  discovery order: sorting gives such a list, and the result is the prefix of any such
  list. For \<open>n = 0\<close> it is empty, and for \<open>n\<close> above the number of records it is the whole
  sorted list. The report of a run holds this list for the records of the run and the
  configured \<open>topN\<close>.
\<close>

theorem largest_files_sorted:
  "stableSortedDesc stats (largestFiles stats (length stats))
   \<and> (\<forall>ys. stableSortedDesc stats ys \<longrightarrow> largestFiles stats n = take n ys)
   \<and> largestFiles stats 0 = []
   \<and> (\<forall>ys. stableSortedDesc stats ys \<and> length stats < n \<longrightarrow> largestFiles stats n = ys)
   \<and> (\<forall>r. run P fs targetPath opts = Inr r \<longrightarrow>
          largest r = largestFiles (allStats r) (topN opts))"
proof -
  let ?sorted = "sortBy (\<lambda>a b. int (totalLines b) - int (totalLines a)) stats"
  have a: "stableSortedDesc stats ?sorted" by (rule sortBy_stable_sorted)
  have l: "length ?sorted = length stats" using a by (rule stable_sorted_length)
  have c1: "stableSortedDesc stats (largestFiles stats (length stats))"
    using a l by (simp add: largestFiles_def)
  have c2: "largestFiles stats n = take n ys" if "stableSortedDesc stats ys" for ys
    using stable_sorted_unique[OF that] by (simp add: largestFiles_def)
  have c3: "largestFiles stats 0 = []" by (simp add: largestFiles_def)
  have c4: "largestFiles stats n = ys" if "stableSortedDesc stats ys" "length stats < n" for ys
    using c2[OF that(1)] stable_sorted_length[OF that(1)] that(2) by simp
  have c5: "largest r = largestFiles (allStats r) (topN opts)"
    if "run P fs targetPath opts = Inr r" for r
    using that
    by (auto simp: run_def Let_def summarize_def split: option.splits if_splits prod.splits)
  from c1 c2 c3 c4 c5 show ?thesis by blast
qed

theorem largest_files_sorted_witness:
  "stableSortedDesc [exStatA, exStatB, exStatC] [exStatB, exStatA, exStatC]
   \<and> largestFiles [exStatA, exStatB, exStatC] 2 = [exStatB, exStatA]
   \<and> length [exStatA, exStatB, exStatC] < (4::nat)
   \<and> largestFiles [exStatA, exStatB, exStatC] 4 = [exStatB, exStatA, exStatC]"
proof -
  have h: "stableSortedDesc [exStatA, exStatB, exStatC] [exStatB, exStatA, exStatC]"
    by (simp add: stableSortedDesc_def exStatA_def exStatB_def exStatC_def)
  have l: "length [exStatA, exStatB, exStatC] < (4::nat)" by simp
  note th = largest_files_sorted[of "[exStatA, exStatB, exStatC]"]
  from th[of 2] h have "largestFiles [exStatA, exStatB, exStatC] 2 = take 2 [exStatB, exStatA, exStatC]" by blast
  then have a: "largestFiles [exStatA, exStatB, exStatC] 2 = [exStatB, exStatA]" by simp
  from th[of 4] h l have b: "largestFiles [exStatA, exStatB, exStatC] 4 = [exStatB, exStatA, exStatC]" by blast
  from h a l b show ?thesis by blast
qed

lemma map_of_mapSet: "map_of (mapSet m k v) = (map_of m)(k \<mapsto> v)"
  by (induction m) auto

lemma keys_mapSet: "fst ` set (mapSet m k v) = insert k (fst ` set m)"
proof (induction m)
  case Nil
  show ?case by simp
next
  case (Cons p m)
  obtain k' v' where p: "p = (k', v')" by (cases p)
  show ?case
  proof (cases "k' = k")
    case True
    then show ?thesis by (simp add: p)
  next
    case False
    then show ?thesis using Cons by (simp add: p insert_commute)
  qed
qed

lemma distinct_mapSet: "distinct (map fst m) \<Longrightarrow> distinct (map fst (mapSet m k v))"
proof (induction m)
  case Nil
  show ?case by simp
next
  case (Cons p m)
  obtain k' v' where p: "p = (k', v')" by (cases p)
  from Cons keys_mapSet[of m k v] show ?case by (auto simp: p)
qed

lemma sum_mapSet:
  "sum_list (map (g \<circ> snd) (mapSet m k v)) + g (case map_of m k of Some c \<Rightarrow> c | None \<Rightarrow> z)
     = sum_list (map (g \<circ> snd) m) + g v + (case map_of m k of Some c \<Rightarrow> 0 | None \<Rightarrow> g z)"
  for g :: "extTotals \<Rightarrow> nat"
  by (induction m) auto

lemma foldl_sum: "foldl (\<lambda>a b. a + g b) a xs = a + sum_list (map g xs)" for a :: nat
  by (induction xs arbitrary: a) simp_all

lemma extSummaryOf_snoc:
  "extSummaryOf (stats @ [s]) e =
     (if ext s = e
      then Some (addFile (case extSummaryOf stats e of Some c \<Rightarrow> c | None \<Rightarrow> zeroTotals) s)
      else extSummaryOf stats e)"
  by (simp add: extSummaryOf_def Let_def addFile_def zeroTotals_def)

lemma aggInv_step:
  assumes "aggInv (stats, perExt)"
  shows "aggInv (stats @ [s],
           mapSet perExt (ext s)
             (addFile (case map_of perExt (ext s) of Some c \<Rightarrow> c | None \<Rightarrow> zeroTotals) s))"
proof -
  let ?cur = "case map_of perExt (ext s) of Some c \<Rightarrow> c | None \<Rightarrow> zeroTotals"
  let ?m = "mapSet perExt (ext s) (addFile ?cur s)"
  from assms have m: "\<And>e. map_of perExt e = extSummaryOf stats e"
    and d: "distinct (map fst perExt)"
    and s1: "sum_list (map (files \<circ> snd) perExt) = length stats"
    and s2: "sum_list (map (totalLinesE \<circ> snd) perExt) = sum_list (map totalLines stats)"
    and s3: "sum_list (map (nonEmptyE \<circ> snd) perExt) = sum_list (map nonEmptyLines stats)"
    and s4: "sum_list (map (comments \<circ> snd) perExt) = sum_list (map commentOnlyLines stats)"
    by (simp_all add: aggInv_def)
  have a: "map_of ?m e = extSummaryOf (stats @ [s]) e" for e
    by (simp add: map_of_mapSet extSummaryOf_snoc m)
  have b: "distinct (map fst ?m)" using d by (rule distinct_mapSet)
  have z: "(case map_of perExt (ext s) of Some c \<Rightarrow> 0 | None \<Rightarrow> g zeroTotals) = 0"
    if "g zeroTotals = 0" for g :: "extTotals \<Rightarrow> nat"
    using that by (simp split: option.split)
  have c1: "sum_list (map (files \<circ> snd) ?m) = length (stats @ [s])"
    using sum_mapSet[of files perExt "ext s" "addFile ?cur s" zeroTotals] s1
      z[of files] by (simp add: addFile_def zeroTotals_def)
  have c2: "sum_list (map (totalLinesE \<circ> snd) ?m) = sum_list (map totalLines (stats @ [s]))"
    using sum_mapSet[of totalLinesE perExt "ext s" "addFile ?cur s" zeroTotals] s2
      z[of totalLinesE] by (simp add: addFile_def zeroTotals_def)
  have c3: "sum_list (map (nonEmptyE \<circ> snd) ?m) = sum_list (map nonEmptyLines (stats @ [s]))"
    using sum_mapSet[of nonEmptyE perExt "ext s" "addFile ?cur s" zeroTotals] s3
      z[of nonEmptyE] by (simp add: addFile_def zeroTotals_def)
  have c4: "sum_list (map (comments \<circ> snd) ?m) = sum_list (map commentOnlyLines (stats @ [s]))"
    using sum_mapSet[of comments perExt "ext s" "addFile ?cur s" zeroTotals] s4
      z[of comments] by (simp add: addFile_def zeroTotals_def)
  from a b c1 c2 c3 c4 show ?thesis unfolding aggInv_def by simp
qed

lemma processFiles_Some:
  "analyzeFile P fs f opts = Some s \<Longrightarrow>
     processFiles P fs opts (f # rest) (stats, perExt)
       = processFiles P fs opts rest
           (stats @ [s],
            mapSet perExt (ext s)
              (addFile (case map_of perExt (ext s) of Some c \<Rightarrow> c | None \<Rightarrow> zeroTotals) s))"
  unfolding addFile_def zeroTotals_def by (simp add: Let_def mapGet_def)

lemma processFiles_inv:
  "aggInv acc \<Longrightarrow> aggInv (processFiles P fs opts fileList acc)"
proof (induction fileList arbitrary: acc)
  case Nil
  then show ?case by simp
next
  case (Cons f rest)
  obtain stats perExt where acc: "acc = (stats, perExt)" by (cases acc)
  show ?case
  proof (cases "analyzeFile P fs f opts")
    case None
    with Cons acc show ?thesis by simp
  next
    case (Some s)
    from aggInv_step[of stats perExt s] Cons.prems acc
    have "aggInv (stats @ [s],
           mapSet perExt (ext s)
             (addFile (case map_of perExt (ext s) of Some c \<Rightarrow> c | None \<Rightarrow> zeroTotals) s))"
      by simp
    from Cons.IH[OF this] show ?thesis
      unfolding acc processFiles_Some[OF Some] .
  qed
qed

lemma aggInv_empty: "aggInv ([], [])"
  by (simp add: aggInv_def extSummaryOf_def)

lemma run_Inr:
  "run P fs targetPath opts = Inr r \<Longrightarrow>
     r = summarize targetPath opts
           (processFiles P fs opts (walkDir P targetPath (readdir fs targetPath) opts []) ([], []))"
  by (auto simp: run_def Let_def split: option.splits if_splits)

text \<open>
  C4. In the report of every run, the entry of each extension holds the number of file
  records with that extension and the sums of their three counters, extensions without a
  record have no entry, and each extension has one entry. Each total of the report is the
  sum of the counter over all file records, and the sum of the field over the entries.
\<close>

theorem aggregation_sums:
  assumes "run P fs targetPath opts = Inr r"
  shows "(\<forall>e. mapGet (perExtension r) e = extSummaryOf (allStats r) e)
       \<and> distinct (map fst (perExtension r))
       \<and> totalFiles r = length (allStats r)
       \<and> totalFiles r = sum_list (map (files \<circ> snd) (perExtension r))
       \<and> totalLinesR r = sum_list (map totalLines (allStats r))
       \<and> totalLinesR r = sum_list (map (totalLinesE \<circ> snd) (perExtension r))
       \<and> totalNonEmpty r = sum_list (map nonEmptyLines (allStats r))
       \<and> totalNonEmpty r = sum_list (map (nonEmptyE \<circ> snd) (perExtension r))
       \<and> totalComments r = sum_list (map commentOnlyLines (allStats r))
       \<and> totalComments r = sum_list (map (comments \<circ> snd) (perExtension r))"
proof -
  let ?acc = "processFiles P fs opts (walkDir P targetPath (readdir fs targetPath) opts []) ([], [])"
  obtain stats perExt where acc: "?acc = (stats, perExt)" by (cases ?acc)
  have r: "r = summarize targetPath opts (stats, perExt)"
    using run_Inr[OF assms] acc by simp
  have "aggInv (stats, perExt)"
    using processFiles_inv[OF aggInv_empty, of P fs opts] acc by metis
  then show ?thesis
    by (simp add: r summarize_def aggInv_def mapGet_def foldl_sum)
qed

lemma fullPath_Cons: "fullPath P dir (name # dirs, n) = fullPath P (pathJoin P dir name) (dirs, n)"
  by (simp add: fullPath_def)

lemma walkerKeeps_Cons:
  "walkerKeeps P opts (name # dirs, n)
     = (\<not> shouldExcludeDir name (excludeDirs opts) \<and> walkerKeeps P opts (dirs, n))"
  by (auto simp: walkerKeeps_def shouldExcludeDir_def)

lemma kept_below:
  "map (fullPath P dir) (filter (walkerKeeps P opts) (map (\<lambda>(dirs, n). (name # dirs, n)) fs))
     = (if shouldExcludeDir name (excludeDirs opts) then []
        else map (fullPath P (pathJoin P dir name)) (filter (walkerKeeps P opts) fs))"
  by (induction fs) (auto simp: walkerKeeps_Cons fullPath_Cons)

lemma walk_files:
  "walkDir P dir tree opts fileList
     = fileList @ map (fullPath P dir) (filter (walkerKeeps P opts) (filesUnder tree))"
  "walkEntries P dir entries opts fileList
     = fileList @ map (fullPath P dir) (filter (walkerKeeps P opts) (filesIn entries))"
proof (induction P dir tree opts fileList and P dir entries opts fileList
        rule: walkDir_walkEntries.induct)
  case (1 P dir opts fileList)
  show ?case by simp
next
  case (2 P dir entries opts fileList)
  then show ?case by simp
next
  case (3 P dir opts fileList)
  show ?case by simp
next
  case (4 P dir name sub rest opts fileList)
  show ?case
  proof (cases "shouldExcludeDir name (excludeDirs opts)")
    case True
    with 4 show ?thesis by (simp add: kept_below)
  next
    case False
    with 4 show ?thesis by (simp add: kept_below)
  qed
next
  case (5 P dir name rest opts fileList)
  then show ?case
    by (auto simp: Let_def walkerKeeps_def fullPath_def)
next
  case (6 P dir name rest opts fileList)
  then show ?case by simp
qed

text \<open>
  C6. The walker yields, in the order of the listings, exactly the regular files below the
  root that \<open>walkerKeeps\<close> admits: no directory on the path below the root is excluded
  (so nothing below an excluded directory is yielded, at any depth), the extension is not
  empty, and it is in the allow-list unless that list is empty.
\<close>

theorem walker_yields_filtered_files:
  "walkDir P root tree opts []
     = map (fullPath P root) (filter (walkerKeeps P opts) (filesUnder tree))"
  by (simp add: walk_files(1))

lemma analyzeFile_unreadable: "readFile fs f = None \<Longrightarrow> analyzeFile P fs f opts = None"
  by (simp add: analyzeFile_def)

lemma processFiles_skip:
  assumes "readFile fs f = None"
  shows "processFiles P fs opts fileList acc
           = processFiles P fs opts (filter (\<lambda>p. p \<noteq> f) fileList) acc"
proof (induction fileList arbitrary: acc)
  case Nil
  show ?case by simp
next
  case (Cons p rest)
  obtain stats perExt where acc: "acc = (stats, perExt)" by (cases acc)
  show ?case
  proof (cases "p = f")
    case True
    with Cons analyzeFile_unreadable[OF assms, of P opts] show ?thesis by (simp add: acc)
  next
    case False
    with Cons show ?thesis by (simp add: acc Let_def split: option.split)
  qed
qed

text \<open>
  C7. \<open>run\<close> ends with a path error exactly when \<^verbatim>\<open>fs.stat\<close> fails on the root (the program's
  "Path not found") or the root is not a directory. Then the result is the error alone,
  and it is the same whatever the listings and the file contents are: it is decided before
  any directory is listed. When the root is a directory and a file cannot be read, its
  analysis yields no record, and the run returns the report that it returns on the other
  files.
\<close>

theorem path_error_and_unreadable_file:
  "((\<exists>e. run P fs targetPath opts = Inl e)
      = (stat fs targetPath = None \<or> stat fs targetPath = Some False))
   \<and> (\<forall>fs'. (stat fs targetPath = None \<or> stat fs targetPath = Some False)
            \<and> stat fs' targetPath = stat fs targetPath
          \<longrightarrow> run P fs' targetPath opts = run P fs targetPath opts)
   \<and> (\<forall>f. stat fs targetPath = Some True \<and> readFile fs f = None
          \<longrightarrow> analyzeFile P fs f opts = None
            \<and> run P fs targetPath opts
              = Inr (summarize targetPath opts
                      (processFiles P fs opts
                        (filter (\<lambda>p. p \<noteq> f) (walkDir P targetPath (readdir fs targetPath) opts []))
                        ([], []))))"
proof -
  have a: "(\<exists>e. run P fs targetPath opts = Inl e)
             = (stat fs targetPath = None \<or> stat fs targetPath = Some False)"
    by (auto simp: run_def Let_def split: option.splits)
  have b: "run P fs' targetPath opts = run P fs targetPath opts"
    if "stat fs targetPath = None \<or> stat fs targetPath = Some False"
      "stat fs' targetPath = stat fs targetPath" for fs'
    using that by (auto simp: run_def)
  have c: "analyzeFile P fs f opts = None
            \<and> run P fs targetPath opts
              = Inr (summarize targetPath opts
                      (processFiles P fs opts
                        (filter (\<lambda>p. p \<noteq> f) (walkDir P targetPath (readdir fs targetPath) opts []))
                        ([], [])))"
    if "stat fs targetPath = Some True" "readFile fs f = None" for f
    using that processFiles_skip[OF that(2), of P opts] analyzeFile_unreadable[OF that(2)]
    by (simp add: run_def Let_def)
  from a b c show ?thesis by blast
qed

lemmas example_defs =
  exTree_def exFs_def exOpts_def exB_def exD_def exE_def exReport_def examplePlatform_def
  fileExt_def stripDot_def shouldExcludeDir_def

lemma ex_walk:
  "walkDir examplePlatform (js ''r'') exTree exOpts []
     = [js ''r/a.ts'', js ''r/src/b.ts'', js ''r/src/d.css'', js ''r/src/e.ts'']"
  by (simp add: example_defs Let_def)

lemma ex_analyze:
  "analyzeFile examplePlatform exFs (js ''r/a.ts'') exOpts = None"
  "analyzeFile examplePlatform exFs (js ''r/src/b.ts'') exOpts = Some exB"
  "analyzeFile examplePlatform exFs (js ''r/src/d.css'') exOpts = Some exD"
  "analyzeFile examplePlatform exFs (js ''r/src/e.ts'') exOpts = Some exE"
  by (simp_all add: analyzeFile_def example_defs classifier_defs)

lemma ex_process:
  "processFiles examplePlatform exFs exOpts
     [js ''r/src/b.ts'', js ''r/src/d.css'', js ''r/src/e.ts''] ([], [])
     = ([exB, exD, exE],
        [(js ''ts'', \<lparr>files = 2, totalLinesE = 3, nonEmptyE = 3, comments = 1\<rparr>),
         (js ''css'', \<lparr>files = 1, totalLinesE = 1, nonEmptyE = 1, comments = 0\<rparr>)])"
  by (simp add: ex_analyze[simplified] mapGet_def Let_def exB_def exD_def exE_def)

lemma ex_run: "run examplePlatform exFs (js ''r'') exOpts = Inr exReport"
proof -
  have s: "stat exFs (js ''r'') = Some True" "readdir exFs (js ''r'') = exTree"
    by (simp_all add: exFs_def)
  have p: "processFiles examplePlatform exFs exOpts
     [js ''r/a.ts'', js ''r/src/b.ts'', js ''r/src/d.css'', js ''r/src/e.ts''] ([], [])
     = ([exB, exD, exE],
        [(js ''ts'', \<lparr>files = 2, totalLinesE = 3, nonEmptyE = 3, comments = 1\<rparr>),
         (js ''css'', \<lparr>files = 1, totalLinesE = 1, nonEmptyE = 1, comments = 0\<rparr>)])"
    using ex_process by (simp add: ex_analyze(1)[simplified])
  have l: "largestFiles [exB, exD, exE] (topN exOpts) = [exE, exB, exD]"
    by (simp add: largestFiles_def sortBy_def exOpts_def exB_def exD_def exE_def)
  show ?thesis
    unfolding run_def Let_def s ex_walk p
    by (simp add: summarize_def l) (simp add: exReport_def exB_def exD_def exE_def)
qed

theorem aggregation_sums_witness:
  "run examplePlatform exFs (js ''r'') exOpts = Inr exReport
   \<and> mapGet (perExtension exReport) (js ''ts'') = extSummaryOf [exB, exD, exE] (js ''ts'')
   \<and> totalLinesR exReport = sum_list (map totalLines [exB, exD, exE])
   \<and> totalLinesR exReport = sum_list (map (totalLinesE \<circ> snd) (perExtension exReport))
   \<and> totalLinesR exReport = 4"
proof -
  have a: "allStats exReport = [exB, exD, exE]" by (simp add: exReport_def)
  from aggregation_sums[OF ex_run]
  have "mapGet (perExtension exReport) (js ''ts'') = extSummaryOf (allStats exReport) (js ''ts'')"
    and "totalLinesR exReport = sum_list (map totalLines (allStats exReport))"
    and "totalLinesR exReport = sum_list (map (totalLinesE \<circ> snd) (perExtension exReport))"
    by blast+
  moreover have "totalLinesR exReport = 4" by (simp add: exReport_def)
  ultimately show ?thesis using ex_run unfolding a by blast
qed

theorem walker_yields_filtered_files_witness:
  "walkerKeeps examplePlatform exOpts ([js ''src''], js ''b.ts'')
   \<and> \<not> walkerKeeps examplePlatform exOpts ([js ''node_modules''], js ''m.ts'')
   \<and> \<not> walkerKeeps examplePlatform exOpts ([js ''src''], js ''README'')
   \<and> \<not> walkerKeeps examplePlatform exOpts ([js ''src''], js ''c.md'')
   \<and> walkDir examplePlatform (js ''r'') exTree exOpts []
       = [js ''r/a.ts'', js ''r/src/b.ts'', js ''r/src/d.css'', js ''r/src/e.ts'']"
proof -
  have k: "walkerKeeps examplePlatform exOpts ([js ''src''], js ''b.ts'')"
    "\<not> walkerKeeps examplePlatform exOpts ([js ''node_modules''], js ''m.ts'')"
    "\<not> walkerKeeps examplePlatform exOpts ([js ''src''], js ''README'')"
    "\<not> walkerKeeps examplePlatform exOpts ([js ''src''], js ''c.md'')"
    by (simp_all add: walkerKeeps_def example_defs)
  have "map (fullPath examplePlatform (js ''r''))
          (filter (walkerKeeps examplePlatform exOpts) (filesUnder exTree))
        = [js ''r/a.ts'', js ''r/src/b.ts'', js ''r/src/d.css'', js ''r/src/e.ts'']"
    by (simp add: walkerKeeps_def fullPath_def example_defs)
  with walker_yields_filtered_files[of examplePlatform "js ''r''" exTree exOpts]
  have "walkDir examplePlatform (js ''r'') exTree exOpts []
       = [js ''r/a.ts'', js ''r/src/b.ts'', js ''r/src/d.css'', js ''r/src/e.ts'']"
    by simp
  with k show ?thesis by blast
qed

theorem path_error_and_unreadable_file_witness:
  "stat exFs (js ''q'') = None
   \<and> (\<exists>e. run examplePlatform exFs (js ''q'') exOpts = Inl e)
   \<and> stat exFs (js ''r'') = Some True
   \<and> readFile exFs (js ''r/a.ts'') = None
   \<and> analyzeFile examplePlatform exFs (js ''r/a.ts'') exOpts = None
   \<and> run examplePlatform exFs (js ''r'') exOpts
       = Inr (summarize (js ''r'') exOpts
               (processFiles examplePlatform exFs exOpts
                  [js ''r/src/b.ts'', js ''r/src/d.css'', js ''r/src/e.ts''] ([], [])))"
proof -
  have q: "stat exFs (js ''q'') = None" by (simp add: exFs_def)
  have s: "stat exFs (js ''r'') = Some True" by (simp add: exFs_def)
  have u: "readFile exFs (js ''r/a.ts'') = None" by (simp add: exFs_def)
  have d: "readdir exFs (js ''r'') = exTree" by (simp add: exFs_def)
  have f: "filter (\<lambda>p. p \<noteq> js ''r/a.ts'')
             (walkDir examplePlatform (js ''r'') (readdir exFs (js ''r'')) exOpts [])
           = [js ''r/src/b.ts'', js ''r/src/d.css'', js ''r/src/e.ts'']"
    unfolding d ex_walk by simp
  note th = path_error_and_unreadable_file[of examplePlatform exFs _ exOpts]
  from th[of "js ''q''"] q have a: "\<exists>e. run examplePlatform exFs (js ''q'') exOpts = Inl e"
    by blast
  from th[of "js ''r''"] s u
  have "analyzeFile examplePlatform exFs (js ''r/a.ts'') exOpts = None
        \<and> run examplePlatform exFs (js ''r'') exOpts
           = Inr (summarize (js ''r'') exOpts
               (processFiles examplePlatform exFs exOpts
                  (filter (\<lambda>p. p \<noteq> js ''r/a.ts'')
                     (walkDir examplePlatform (js ''r'') (readdir exFs (js ''r'')) exOpts []))
                  ([], [])))"
    by blast
  then show ?thesis unfolding f using q a s u by blast
qed

end
